theory Spec2Isabelle
  imports Complex_Main "HOL-Library.Log_Nat"
begin

section \<open>The conflating relay of conflate-talk\<close>

text \<open>
  The repository holds three relays between a producer and a consumer goroutine
  (\<^verbatim>\<open>ConflateV1\<close>, \<^verbatim>\<open>ConflateV2\<close>, \<^verbatim>\<open>ConflateV3\<close> in \<^verbatim>\<open>src/solutions\<close>) and the payload type
  \<^verbatim>\<open>Sale\<close> of \<^verbatim>\<open>main.go\<close>. Each relay is one goroutine running an endless loop of two
  \<^verbatim>\<open>select\<close> statements. The loop is embedded as a function from the goroutine's local
  variables to their next values, one call per loop iteration; everything outside the
  goroutine (what the producer sends, whether the consumer is blocked in a receive, how
  much time passes) is an explicit event of a trace.
\<close>

subsection \<open>\<^verbatim>\<open>time.Timer\<close>\<close>

text \<open>
  \<^verbatim>\<open>time.Duration\<close> is a signed count of nanoseconds. A timer made by \<^verbatim>\<open>time.NewTimer(d)\<close>
  sends one value on its channel \<^verbatim>\<open>C\<close> once \<^verbatim>\<open>d\<close> has elapsed, unless \<^verbatim>\<open>Stop\<close> was called
  before. A timer is kept as its deadline on the clock, whether it was stopped before
  expiring, and whether the value on \<^verbatim>\<open>C\<close> has been received.
\<close>

type_synonym Duration = int

record Timer =
  deadline :: int
  stopped :: bool
  received :: bool

text \<open>The channel \<^verbatim>\<open>C\<close> of a timer holds a value at clock time \<open>t\<close>.\<close>

definition readable :: "int \<Rightarrow> Timer \<Rightarrow> bool" where
  "readable t tm \<longleftrightarrow> \<not> stopped tm \<and> \<not> received tm \<and> deadline tm \<le> t"

text \<open>The timer has sent, or can still send, a value nobody has received.\<close>

definition pending :: "Timer \<Rightarrow> bool" where
  "pending tm \<longleftrightarrow> \<not> stopped tm \<and> \<not> received tm"

subsection \<open>The variables every relay goroutine owns\<close>

text \<open>
  \<^verbatim>\<open>retryTimer\<close> is a \<^verbatim>\<open>*time.Timer\<close> (\<open>None\<close> is \<^verbatim>\<open>nil\<close>, \<open>Some i\<close> points at timer \<open>i\<close> of the
  store), \<^verbatim>\<open>retryCh\<close> a receive-only channel (\<open>None\<close> is the \<^verbatim>\<open>nil\<close> channel, \<open>Some i\<close> the
  channel \<^verbatim>\<open>C\<close> of timer \<open>i\<close>). \<open>timers\<close> is the store of all timers created so far and
  \<open>now\<close> the clock in nanoseconds.
\<close>

record relay =
  retryTimer :: "nat option"
  retryCh :: "nat option"
  timers :: "Timer list"
  now :: int

text \<open>\<^verbatim>\<open>time.NewTimer(d)\<close>: a fresh timer, returned by its index.\<close>

definition NewTimer :: "Duration \<Rightarrow> 'z relay_scheme \<Rightarrow> nat \<times> 'z relay_scheme" where
  "NewTimer d s =
     (length (timers s),
      s\<lparr>timers := timers s @ [\<lparr>deadline = now s + d, stopped = False, received = False\<rparr>]\<rparr>)"

text \<open>
  \<^verbatim>\<open>t.Stop()\<close>: prevents the timer from firing; a timer that has already expired is left
  as it is (the call returns false and the value stays on the channel).
\<close>

definition Stop :: "nat \<Rightarrow> 'z relay_scheme \<Rightarrow> 'z relay_scheme" where
  "Stop i s =
     (if i < length (timers s) \<and> now s < deadline (timers s ! i)
      then s\<lparr>timers := (timers s)[i := (timers s ! i)\<lparr>stopped := True\<rparr>]\<rparr>
      else s)"

text \<open>
  The case \<^verbatim>\<open>case <-retryCh:\<close> can proceed: the channel is not \<^verbatim>\<open>nil\<close> and holds a value.
  A receive from a \<^verbatim>\<open>nil\<close> channel blocks forever.
\<close>

definition retry_ready :: "'z relay_scheme \<Rightarrow> bool" where
  "retry_ready s =
     (case retryCh s of
        None \<Rightarrow> False
      | Some i \<Rightarrow> i < length (timers s) \<and> readable (now s) (timers s ! i))"

text \<open>Receiving from \<^verbatim>\<open>retryCh\<close> takes the value off the timer's channel.\<close>

definition recv_retry :: "'z relay_scheme \<Rightarrow> 'z relay_scheme" where
  "recv_retry s =
     (case retryCh s of
        None \<Rightarrow> s
      | Some i \<Rightarrow> s\<lparr>timers := (timers s)[i := (timers s ! i)\<lparr>received := True\<rparr>]\<rparr>)"

text \<open>The timer behind \<^verbatim>\<open>retryCh\<close> is armed: it has fired or will fire, and was not received.\<close>

definition armed :: "'z relay_scheme \<Rightarrow> bool" where
  "armed s =
     (case retryCh s of
        None \<Rightarrow> False
      | Some i \<Rightarrow> i < length (timers s) \<and> pending (timers s ! i))"

subsection \<open>Events outside the goroutine\<close>

text \<open>
  The first \<^verbatim>\<open>select\<close> of the loop blocks until it takes one of its two cases:
  \<open>RecvIn v\<close>, the producer's value \<open>v\<close> arrives on \<^verbatim>\<open>inCh\<close>, or \<open>RecvRetry\<close>, a value
  arrives on \<^verbatim>\<open>retryCh\<close>. The second \<^verbatim>\<open>select\<close> does not block: its send on \<^verbatim>\<open>outCh\<close>
  (unbuffered) proceeds exactly when the consumer is blocked in a receive at that moment,
  which the boolean of \<open>Iter\<close> records. \<open>Wait n\<close> lets \<open>n\<close> nanoseconds pass.
\<close>

datatype 'a select_case = RecvIn 'a | RecvRetry

datatype 'a event = Wait nat | Iter "'a select_case" bool

text \<open>The values the producer submitted in a trace, in order.\<close>

fun submitted :: "'a event list \<Rightarrow> 'a list" where
  "submitted [] = []"
| "submitted (Iter (RecvIn v) r # es) = v # submitted es"
| "submitted (e # es) = submitted es"

subsection \<open>\<^verbatim>\<open>Conflater\<close> and \<^verbatim>\<open>ConflateV3\<close>\<close>

text \<open>
  \<^verbatim>\<open>type Conflater[C any] interface { ConflateWith(latest C) C; ZeroValue() C }\<close>.
  Both are methods, so both take their receiver: the loop calls
  \<^verbatim>\<open>T.ZeroValue(conflatedMessage)\<close>.
\<close>

record 'c Conflater =
  ConflateWith :: "'c \<Rightarrow> 'c \<Rightarrow> 'c"
  ZeroValue :: "'c \<Rightarrow> 'c"

record 'a V3 = relay +
  conflatedMessage :: 'a

text \<open>
  The goroutine's variables when the loop is entered. \<^verbatim>\<open>var conflatedMessage T\<close> holds the
  zero value of the type parameter \<^verbatim>\<open>T\<close>, which the interface does not determine: it is
  the parameter \<open>zeroT\<close>. \<open>t0\<close> is the clock at that moment.
\<close>

definition ConflateV3 :: "'a \<Rightarrow> int \<Rightarrow> 'a V3" where
  "ConflateV3 zeroT t0 =
     \<lparr>retryTimer = None, retryCh = None, timers = [], now = t0, conflatedMessage = zeroT\<rparr>"

text \<open>
  The first \<^verbatim>\<open>select\<close> (lines 18 to 26), given the case it takes. \<open>None\<close>: the case cannot
  be taken in this state.
\<close>

definition await_V3 :: "'a Conflater \<Rightarrow> 'a select_case \<Rightarrow> 'a V3 \<Rightarrow> 'a V3 option" where
  "await_V3 P c s =
     (case c of
        RecvIn lastMsg \<Rightarrow>
          (let s1 = s\<lparr>conflatedMessage := ConflateWith P (conflatedMessage s) lastMsg\<rparr>
           in case retryTimer s1 of
                None \<Rightarrow> Some s1
              | Some i \<Rightarrow> Some ((Stop i s1)\<lparr>retryCh := None\<rparr>))
      | RecvRetry \<Rightarrow> (if retry_ready s then Some (recv_retry s) else None))"

text \<open>
  The second \<^verbatim>\<open>select\<close> (lines 28 to 34), given whether the consumer is ready. It returns
  the value handed to the consumer, if any.
\<close>

definition attempt_V3 :: "'a Conflater \<Rightarrow> Duration \<Rightarrow> bool \<Rightarrow> 'a V3 \<Rightarrow> 'a V3 \<times> 'a option" where
  "attempt_V3 P retryInterval ready s =
     (if ready
      then (s\<lparr>conflatedMessage := ZeroValue P (conflatedMessage s)\<rparr>, Some (conflatedMessage s))
      else (let (i, s1) = NewTimer retryInterval s
            in (s1\<lparr>retryTimer := Some i, retryCh := Some i\<rparr>, None)))"

text \<open>One event: time passing, or one iteration of the loop.\<close>

definition step_V3 ::
  "'a Conflater \<Rightarrow> Duration \<Rightarrow> 'a event \<Rightarrow> 'a V3 \<Rightarrow> ('a V3 \<times> 'a option) option" where
  "step_V3 P retryInterval e s =
     (case e of
        Wait n \<Rightarrow> Some (s\<lparr>now := now s + int n\<rparr>, None)
      | Iter c ready \<Rightarrow>
          (case await_V3 P c s of
             None \<Rightarrow> None
           | Some s1 \<Rightarrow> Some (attempt_V3 P retryInterval ready s1)))"

text \<open>
  A trace of events, from a state of the loop: the final state and the values delivered,
  in order. \<open>None\<close>: the trace is not an execution (it takes a case that cannot proceed).
\<close>

fun run_V3 ::
  "'a Conflater \<Rightarrow> Duration \<Rightarrow> 'a event list \<Rightarrow> 'a V3 \<Rightarrow> ('a V3 \<times> 'a list) option" where
  "run_V3 P d [] s = Some (s, [])"
| "run_V3 P d (e # es) s =
     (case step_V3 P d e s of
        None \<Rightarrow> None
      | Some (s1, out) \<Rightarrow>
          (case run_V3 P d es s1 of
             None \<Rightarrow> None
           | Some (s2, ds) \<Rightarrow> Some (s2, (case out of None \<Rightarrow> ds | Some v \<Rightarrow> v # ds))))"

subsection \<open>\<^verbatim>\<open>ConflateV2\<close>\<close>

text \<open>
  \<^verbatim>\<open>ConflateV2\<close> has the same loop with \<^verbatim>\<open>lastMsg\<close> in place of the accumulator: the
  first \<^verbatim>\<open>select\<close> assigns the received value to it, the second sends it and, on
  success, changes nothing.
\<close>

record 'a V2 = relay +
  lastMsg :: 'a

definition ConflateV2 :: "'a \<Rightarrow> int \<Rightarrow> 'a V2" where
  "ConflateV2 zeroT t0 =
     \<lparr>retryTimer = None, retryCh = None, timers = [], now = t0, lastMsg = zeroT\<rparr>"

definition await_V2 :: "'a select_case \<Rightarrow> 'a V2 \<Rightarrow> 'a V2 option" where
  "await_V2 c s =
     (case c of
        RecvIn v \<Rightarrow>
          (let s1 = s\<lparr>lastMsg := v\<rparr>
           in case retryTimer s1 of
                None \<Rightarrow> Some s1
              | Some i \<Rightarrow> Some ((Stop i s1)\<lparr>retryCh := None\<rparr>))
      | RecvRetry \<Rightarrow> (if retry_ready s then Some (recv_retry s) else None))"

definition attempt_V2 :: "Duration \<Rightarrow> bool \<Rightarrow> 'a V2 \<Rightarrow> 'a V2 \<times> 'a option" where
  "attempt_V2 retryInterval ready s =
     (if ready
      then (s, Some (lastMsg s))
      else (let (i, s1) = NewTimer retryInterval s
            in (s1\<lparr>retryTimer := Some i, retryCh := Some i\<rparr>, None)))"

definition step_V2 :: "Duration \<Rightarrow> 'a event \<Rightarrow> 'a V2 \<Rightarrow> ('a V2 \<times> 'a option) option" where
  "step_V2 retryInterval e s =
     (case e of
        Wait n \<Rightarrow> Some (s\<lparr>now := now s + int n\<rparr>, None)
      | Iter c ready \<Rightarrow>
          (case await_V2 c s of
             None \<Rightarrow> None
           | Some s1 \<Rightarrow> Some (attempt_V2 retryInterval ready s1)))"

fun run_V2 :: "Duration \<Rightarrow> 'a event list \<Rightarrow> 'a V2 \<Rightarrow> ('a V2 \<times> 'a list) option" where
  "run_V2 d [] s = Some (s, [])"
| "run_V2 d (e # es) s =
     (case step_V2 d e s of
        None \<Rightarrow> None
      | Some (s1, out) \<Rightarrow>
          (case run_V2 d es s1 of
             None \<Rightarrow> None
           | Some (s2, ds) \<Rightarrow> Some (s2, (case out of None \<Rightarrow> ds | Some v \<Rightarrow> v # ds))))"

subsection \<open>Which case the first \<^verbatim>\<open>select\<close> takes\<close>

text \<open>
  The cases of the first \<^verbatim>\<open>select\<close> that can proceed, in source order, when the producer
  is blocked in a send of \<open>v\<close> on \<^verbatim>\<open>inCh\<close> (\<open>offer = Some v\<close>) or is not sending
  (\<open>offer = None\<close>). By the language, when one or more cases can proceed a single one of
  them is chosen by a uniform pseudo-random selection: the statement has no
  \<^verbatim>\<open>default\<close> and no priority, so every member of this list can be the case taken.
\<close>

definition select_ready :: "'a option \<Rightarrow> 'z relay_scheme \<Rightarrow> 'a select_case list" where
  "select_ready offer s =
     (case offer of None \<Rightarrow> [] | Some v \<Rightarrow> [RecvIn v]) @
     (if retry_ready s then [RecvRetry] else [])"

subsection \<open>\<^verbatim>\<open>Sale\<close> (main.go)\<close>

text \<open>
  A \<^verbatim>\<open>time.Time\<close> is an instant, counted in nanoseconds from January 1 of year 1,
  00:00 UTC (negative before it), and a location pointer (\<open>0\<close> for \<^verbatim>\<open>nil\<close>, which
  means UTC). The zero \<^verbatim>\<open>Time\<close> is instant \<open>0\<close> with location \<^verbatim>\<open>nil\<close>. \<^verbatim>\<open>t.After(u)\<close>
  compares instants only.
\<close>

record Time =
  instant :: int
  loc :: nat

definition After :: "Time \<Rightarrow> Time \<Rightarrow> bool" where
  "After t u \<longleftrightarrow> instant u < instant t"

text \<open>
  A \<^verbatim>\<open>float64\<close> is \<^verbatim>\<open>NaN\<close>, an infinity, the negative zero, or a finite value \<open>Fin r\<close> with
  \<open>r\<close> the rational it denotes (\<open>Fin 0\<close> is the positive zero). Addition is that of
  IEEE 754 binary64 with rounding to nearest, ties to even.
\<close>

datatype float64 = NaN | PosInf | NegInf | NegZero | Fin rat

text \<open>Two to an integer power.\<close>

definition pow2 :: "int \<Rightarrow> rat" where
  "pow2 e = (if 0 \<le> e then 2 ^ nat e else 1 / 2 ^ nat (- e))"

text \<open>
  The binary logarithm of a positive rational, rounded down, from the bit lengths of its
  numerator and denominator.
\<close>

definition ilog2 :: "rat \<Rightarrow> int" where
  "ilog2 q =
     (let k = int (floorlog 2 (nat (fst (quotient_of q)))) -
              int (floorlog 2 (nat (snd (quotient_of q))))
      in if pow2 k \<le> q then k else k - 1)"

text \<open>
  The exponent of the unit in the last place at \<open>r\<close>: 53 significant bits, and never below
  the exponent \<open>-1074\<close> of the subnormal numbers.
\<close>

definition ulp_exp :: "rat \<Rightarrow> int" where
  "ulp_exp r = max (ilog2 \<bar>r\<bar> - 52) (- 1074)"

text \<open>Rounding to the nearest integer, ties to the even one.\<close>

definition round_half_even :: "rat \<Rightarrow> int" where
  "round_half_even q =
     (if q - of_int \<lfloor>q\<rfloor> < 1 / 2 then \<lfloor>q\<rfloor>
      else if 1 / 2 < q - of_int \<lfloor>q\<rfloor> then \<lfloor>q\<rfloor> + 1
      else if even \<lfloor>q\<rfloor> then \<lfloor>q\<rfloor> else \<lfloor>q\<rfloor> + 1)"

text \<open>
  Rounding a rational to the nearest \<^verbatim>\<open>float64\<close>, ties to even: to infinity from \<open>2 ^ 1024\<close>
  on, to a signed zero when the nearest value is zero.
\<close>

definition round64 :: "rat \<Rightarrow> float64" where
  "round64 r =
     (let v = of_int (round_half_even (\<bar>r\<bar> / pow2 (ulp_exp r))) * pow2 (ulp_exp r)
      in if 2 ^ 1024 \<le> v then (if 0 < r then PosInf else NegInf)
         else if v = 0 then (if 0 \<le> r then Fin 0 else NegZero)
         else Fin (if 0 < r then v else - v))"

text \<open>
  \<^verbatim>\<open>x + y\<close> on \<^verbatim>\<open>float64\<close>. A sum that is exactly zero is \<open>+0\<close>, except \<open>-0 + -0\<close>.
\<close>

fun fadd :: "float64 \<Rightarrow> float64 \<Rightarrow> float64" where
  "fadd NaN y = NaN"
| "fadd x NaN = NaN"
| "fadd PosInf NegInf = NaN"
| "fadd NegInf PosInf = NaN"
| "fadd PosInf y = PosInf"
| "fadd x PosInf = PosInf"
| "fadd NegInf y = NegInf"
| "fadd x NegInf = NegInf"
| "fadd NegZero NegZero = NegZero"
| "fadd NegZero (Fin b) = Fin b"
| "fadd (Fin a) NegZero = Fin a"
| "fadd (Fin a) (Fin b) = (if a + b = 0 then Fin 0 else round64 (a + b))"

text \<open>
  \<open>Fin r\<close> is a value of \<^verbatim>\<open>float64\<close>: \<open>r\<close> is below \<open>2 ^ 1024\<close> in magnitude and a multiple of
  the unit in its last place.
\<close>

definition is_float64 :: "float64 \<Rightarrow> bool" where
  "is_float64 x =
     (case x of
        Fin r \<Rightarrow> \<bar>r\<bar> < 2 ^ 1024 \<and>
                 of_int \<lfloor>\<bar>r\<bar> / pow2 (ulp_exp r)\<rfloor> = \<bar>r\<bar> / pow2 (ulp_exp r)
      | _ \<Rightarrow> True)"

text \<open>\<^verbatim>\<open>x == y\<close> on \<^verbatim>\<open>float64\<close>: false at \<^verbatim>\<open>NaN\<close>, and the two zeros are equal.\<close>

definition feq :: "float64 \<Rightarrow> float64 \<Rightarrow> bool" where
  "feq x y \<longleftrightarrow> x \<noteq> NaN \<and> y \<noteq> NaN \<and>
     (x = y \<or> (x = NegZero \<and> y = Fin 0) \<or> (x = Fin 0 \<and> y = NegZero))"

record Sale =
  dollars :: float64
  timestamp :: Time

definition maxTime :: "Time \<Rightarrow> Time \<Rightarrow> Time" where
  "maxTime t1 t2 = (if After t1 t2 then t1 else t2)"

definition Sale_ConflateWith :: "Sale \<Rightarrow> Sale \<Rightarrow> Sale" where
  "Sale_ConflateWith s s2 =
     \<lparr>dollars = fadd (dollars s) (dollars s2), timestamp = maxTime (timestamp s) (timestamp s2)\<rparr>"

text \<open>\<^verbatim>\<open>Sale{}\<close>: every field at its zero value.\<close>

definition Sale_ZeroValue :: "Sale \<Rightarrow> Sale" where
  "Sale_ZeroValue s = \<lparr>dollars = Fin 0, timestamp = \<lparr>instant = 0, loc = 0\<rparr>\<rparr>"

text \<open>
  \<^verbatim>\<open>s == t\<close> on \<^verbatim>\<open>Sale\<close>: the dollars compare as \<^verbatim>\<open>float64\<close>, the timestamps field by field.
\<close>

definition Sale_eq :: "Sale \<Rightarrow> Sale \<Rightarrow> bool" where
  "Sale_eq s t \<longleftrightarrow> feq (dollars s) (dollars t) \<and> timestamp s = timestamp t"

text \<open>\<^verbatim>\<open>Sale\<close> as the type argument of \<^verbatim>\<open>solutions.ConflateV3[Sale]\<close>.\<close>

definition Sale_Conflater :: "Sale Conflater" where
  "Sale_Conflater = \<lparr>ConflateWith = Sale_ConflateWith, ZeroValue = Sale_ZeroValue\<rparr>"

subsection \<open>Combine-folds over groups of submitted values\<close>

text \<open>
  The values a relay hands over when the groups \<open>gs\<close> of submitted values are folded one
  after the other: each group is folded with \<^verbatim>\<open>ConflateWith\<close> from the accumulator of
  that moment, which is \<open>a\<close> for the first group and, for every later one, the
  \<^verbatim>\<open>ZeroValue()\<close> of the value handed over before it.
\<close>

fun group_folds :: "'a Conflater \<Rightarrow> 'a \<Rightarrow> 'a list list \<Rightarrow> 'a list" where
  "group_folds P a [] = []"
| "group_folds P a (g # gs) =
     foldl (ConflateWith P) a g #
     group_folds P (ZeroValue P (foldl (ConflateWith P) a g)) gs"

text \<open>The accumulator after all groups of \<open>gs\<close> have been handed over.\<close>

fun start_after :: "'a Conflater \<Rightarrow> 'a \<Rightarrow> 'a list list \<Rightarrow> 'a" where
  "start_after P a [] = a"
| "start_after P a (g # gs) = start_after P (ZeroValue P (foldl (ConflateWith P) a g)) gs"

text \<open>
  The groups a trace cuts the submitted values into: a group is closed by every iteration
  whose second \<^verbatim>\<open>select\<close> finds the consumer ready. \<open>pend\<close> are the values received and
  not yet handed over; the result is the closed groups and what is left pending.
\<close>

fun grouping :: "'a event list \<Rightarrow> 'a list \<Rightarrow> 'a list list \<times> 'a list" where
  "grouping [] pend = ([], pend)"
| "grouping (Wait n # es) pend = grouping es pend"
| "grouping (Iter c ready # es) pend =
     (let pend1 = (case c of RecvIn v \<Rightarrow> pend @ [v] | RecvRetry \<Rightarrow> pend)
      in if ready then (pend1 # fst (grouping es []), snd (grouping es []))
         else grouping es pend1)"

text \<open>The event is an iteration whose second \<^verbatim>\<open>select\<close> hands a value to the consumer.\<close>

fun is_handover :: "'a event \<Rightarrow> bool" where
  "is_handover (Iter c ready) = ready"
| "is_handover (Wait n) = False"

text \<open>
  What holds of the timer variables at the head of the loop: \<^verbatim>\<open>retryCh\<close> is \<^verbatim>\<open>nil\<close> or the
  channel of \<^verbatim>\<open>retryTimer\<close>; a timer is armed exactly when received values are waiting to
  be handed over; an armed timer expires no later than \<open>retryInterval\<close> from now.
\<close>

definition relay_inv :: "Duration \<Rightarrow> 'z relay_scheme \<Rightarrow> bool \<Rightarrow> bool" where
  "relay_inv d s undelivered \<longleftrightarrow>
     (retryCh s = None \<or> retryCh s = retryTimer s) \<and>
     (armed s \<longleftrightarrow> undelivered) \<and>
     (\<forall>i. retryCh s = Some i \<longrightarrow> deadline (timers s ! i) \<le> now s + d)"

text \<open>
  With no more submissions: \<open>k\<close> retries that find the consumer not ready, then one that
  finds it ready, each after one retry interval.
\<close>

fun retries :: "Duration \<Rightarrow> nat \<Rightarrow> 'a event list" where
  "retries d 0 = [Wait (nat d), Iter RecvRetry True]"
| "retries d (Suc k) = Wait (nat d) # Iter RecvRetry False # retries d k"

text \<open>
  A type argument whose \<^verbatim>\<open>ZeroValue()\<close> is not the zero value of the type: \<^verbatim>\<open>type Low int\<close>
  keeps the lowest value seen, \<^verbatim>\<open>ConflateWith\<close> is the minimum and \<^verbatim>\<open>ZeroValue()\<close> returns
  \<^verbatim>\<open>math.MaxInt64\<close>, the neutral element of the minimum. The zero value of \<^verbatim>\<open>Low\<close> is \<open>0\<close>.
\<close>

definition Low_Conflater :: "int Conflater" where
  "Low_Conflater = \<lparr>ConflateWith = min, ZeroValue = (\<lambda>_. 9223372036854775807)\<rparr>"

text \<open>
  \<^verbatim>\<open>ConflateV2\<close> seen as a \<^verbatim>\<open>ConflateV3\<close>: assigning the received value is conflating with
  taking the latest value, and changing nothing after a send is a \<^verbatim>\<open>ZeroValue()\<close> that returns
  its receiver. \<open>V3_of\<close> reads \<^verbatim>\<open>lastMsg\<close> as the accumulator.
\<close>

definition Latest :: "'a Conflater" where
  "Latest = \<lparr>ConflateWith = (\<lambda>a b. b), ZeroValue = (\<lambda>a. a)\<rparr>"

definition V3_of :: "'a V2 \<Rightarrow> 'a V3" where
  "V3_of s = \<lparr>retryTimer = retryTimer s, retryCh = retryCh s, timers = timers s,
              now = now s, conflatedMessage = lastMsg s\<rparr>"

text \<open>
  Values for concrete runs: \<^verbatim>\<open>Sale{}\<close>, the zero value of \<^verbatim>\<open>Sale\<close> that
  \<^verbatim>\<open>var conflatedMessage T\<close> holds in \<^verbatim>\<open>ConflateV3[Sale]\<close>, and two sales as \<^verbatim>\<open>makeSale\<close>
  makes them, one and two dollars, half a second apart.
\<close>

definition zero_Sale :: Sale where
  "zero_Sale = \<lparr>dollars = Fin 0, timestamp = \<lparr>instant = 0, loc = 0\<rparr>\<rparr>"

definition sale1 :: Sale where
  "sale1 = \<lparr>dollars = Fin 1, timestamp = \<lparr>instant = 500000000, loc = 0\<rparr>\<rparr>"

definition sale2 :: Sale where
  "sale2 = \<lparr>dollars = Fin 2, timestamp = \<lparr>instant = 1000000000, loc = 0\<rparr>\<rparr>"

lemmas run_defs = step_V3_def await_V3_def attempt_V3_def NewTimer_def Stop_def
  retry_ready_def recv_retry_def readable_def ConflateV3_def

section \<open>Properties\<close>

subsection \<open>\<^verbatim>\<open>float64\<close>: the logarithm is the right one, and rounding keeps a \<^verbatim>\<open>float64\<close>\<close>

lemma pow2_powi: "pow2 e = 2 powi e"
  by (simp add: pow2_def power_int_def power_one_over)

lemma pow2_pos: "0 < pow2 e"
  by (simp add: pow2_def)

lemma pow2_nat_diff: "pow2 (int a - int b) = 2 ^ a / 2 ^ b"
  by (simp add: pow2_powi power_int_diff)

lemma pow2_Suc: "pow2 (e + 1) = 2 * pow2 e"
  by (simp add: pow2_powi power_int_add)

lemma ilog2_bounds:
  assumes "0 < q"
  shows "pow2 (ilog2 q) \<le> q \<and> q < pow2 (ilog2 q + 1)"
proof -
  obtain n d where nd: "quotient_of q = (n, d)" by (cases "quotient_of q")
  then have d: "0 < d" and q: "q = of_int n / of_int d"
    using quotient_of_denom_pos[OF nd] quotient_of_div[OF nd] by auto
  with assms have n: "0 < n" by (simp add: zero_less_divide_iff)
  define a where "a = floorlog 2 (nat n)"
  define b where "b = floorlog 2 (nat d)"
  define k where "k = int a - int b"
  from floorlog_bounds[of "nat n" 2] n have na: "2 ^ (a - 1) \<le> nat n" "nat n < 2 ^ a"
    by (simp_all add: a_def)
  from floorlog_bounds[of "nat d" 2] d have db: "2 ^ (b - 1) \<le> nat d" "nat d < 2 ^ b"
    by (simp_all add: b_def)
  have a1: "1 \<le> a" using na(2) n by (cases a) auto
  have b1: "1 \<le> b" using db(2) d by (cases b) auto
  have nr: "(2::rat) ^ (a - 1) \<le> of_int n" "of_int n < (2::rat) ^ a"
  proof -
    have "(2::int) ^ (a - 1) \<le> n" using na(1) n by (simp add: le_nat_iff) 
    then show "(2::rat) ^ (a - 1) \<le> of_int n"
      by (metis of_int_le_iff of_int_numeral of_int_power)
    have "n < (2::int) ^ a" using na(2) n by (simp add: nat_less_iff)
    then show "of_int n < (2::rat) ^ a"
      by (metis of_int_less_iff of_int_numeral of_int_power)
  qed
  have dr: "(2::rat) ^ (b - 1) \<le> of_int d" "of_int d < (2::rat) ^ b"
  proof -
    have "(2::int) ^ (b - 1) \<le> d" using db(1) d by (simp add: le_nat_iff) 
    then show "(2::rat) ^ (b - 1) \<le> of_int d"
      by (metis of_int_le_iff of_int_numeral of_int_power)
    have "d < (2::int) ^ b" using db(2) d by (simp add: nat_less_iff)
    then show "of_int d < (2::rat) ^ b"
      by (metis of_int_less_iff of_int_numeral of_int_power)
  qed
  have dpos: "(0::rat) < of_int d" using d by simp
  have up: "q < pow2 (k + 1)"
  proof -
    have "q < 2 ^ a / of_int d" unfolding q using nr(2) dpos by (simp add: divide_strict_right_mono)
    also have "\<dots> \<le> 2 ^ a / 2 ^ (b - 1)" using dr(1) by (simp add: frac_le)
    also have "\<dots> = pow2 (int a - int (b - 1))" by (simp add: pow2_nat_diff)
    also have "int a - int (b - 1) = k + 1" using b1 by (simp add: k_def)
    finally show ?thesis .
  qed
  have lo: "pow2 (k - 1) < q"
  proof -
    have "pow2 (int (a - 1) - int b) = 2 ^ (a - 1) / 2 ^ b" by (simp add: pow2_nat_diff)
    also have "\<dots> < 2 ^ (a - 1) / of_int d" using dr(2) dpos by (simp add: frac_less2)
    also have "\<dots> \<le> q" unfolding q using nr(1) dpos by (simp add: divide_right_mono)
    finally have "pow2 (int (a - 1) - int b) < q" .
    moreover have "int (a - 1) - int b = k - 1" using a1 by (simp add: k_def)
    ultimately show ?thesis by simp
  qed
  have il: "ilog2 q = (if pow2 k \<le> q then k else k - 1)"
    by (simp add: ilog2_def nd a_def b_def k_def Let_def)
  show ?thesis
  proof (cases "pow2 k \<le> q")
    case True
    then show ?thesis using up il by simp
  next
    case False
    then show ?thesis using lo il pow2_Suc[of "k - 1"] by simp
  qed
qed

lemma rhe_int:
  assumes "of_int \<lfloor>q\<rfloor> = q"
  shows "round_half_even q = \<lfloor>q\<rfloor>"
proof -
  have "q - of_int \<lfloor>q\<rfloor> = 0" unfolding assms by simp
  then show ?thesis by (simp add: round_half_even_def)
qed

lemma round64_id:
  assumes "is_float64 (Fin r)"
  shows "round64 r = Fin r"
proof -
  define e where "e = ulp_exp r"
  define q where "q = \<bar>r\<bar> / pow2 e"
  from assms have b: "\<bar>r\<bar> < 2 ^ 1024" and i: "of_int \<lfloor>q\<rfloor> = q"
    by (simp_all add: is_float64_def q_def e_def)
  have "of_int (round_half_even q) = q"
    unfolding rhe_int[OF i] by (rule i)
  moreover have "q * pow2 e = \<bar>r\<bar>"
    using pow2_pos[of e] by (simp add: q_def)
  ultimately have v: "of_int (round_half_even q) * pow2 e = \<bar>r\<bar>"
    by simp
  show ?thesis
    using v b unfolding round64_def Let_def e_def[symmetric] q_def[symmetric]
    by (cases "r = 0"; cases "0 < r") auto
qed

lemma fadd_zero_left:
  "is_float64 x \<Longrightarrow> fadd (Fin 0) x = (if x = NegZero then Fin 0 else x)"
  by (cases x) (auto simp: round64_id)

lemma fadd_zero_right:
  "is_float64 x \<Longrightarrow> fadd x (Fin 0) = (if x = NegZero then Fin 0 else x)"
  by (cases x) (auto simp: round64_id)

lemma ulp_exp_1: "ulp_exp 1 = - 52"
  by code_simp

lemma ulp_exp_3: "ulp_exp 3 = - 51"
  by code_simp

lemma is_float64_1: "is_float64 (Fin 1)"
  by (simp add: is_float64_def ulp_exp_1 pow2_def)

lemma is_float64_3: "is_float64 (Fin 3)"
  by (simp add: is_float64_def ulp_exp_3 pow2_def)

lemma round64_1: "round64 1 = Fin 1"
  by (rule round64_id[OF is_float64_1])

lemma round64_3: "round64 3 = Fin 3"
  by (rule round64_id[OF is_float64_3])

lemmas sale_defs = Sale_Conflater_def Sale_ConflateWith_def Sale_ZeroValue_def maxTime_def
  After_def zero_Sale_def sale1_def sale2_def round64_1 round64_3


subsection \<open>The loop invariant\<close>

lemma retry_ready_armed: "retry_ready s \<Longrightarrow> armed s"
  by (auto simp: retry_ready_def armed_def readable_def pending_def split: option.splits)

lemma armed_now [simp]: "armed (s\<lparr>now := t\<rparr>) = armed s"
  by (simp add: armed_def split: option.splits)

lemma armed_cm [simp]: "armed (s\<lparr>conflatedMessage := t\<rparr>) = armed s"
  by (simp add: armed_def split: option.splits)

lemma not_armed_None: "retryCh s = None \<Longrightarrow> \<not> armed s"
  by (simp add: armed_def)

lemma not_armed_recv_retry: "\<not> armed (recv_retry s)"
  by (auto simp: armed_def recv_retry_def pending_def split: option.splits)

lemma recv_retry_deadline [simp]:
  "deadline (timers (recv_retry s) ! i) = deadline (timers s ! i)"
proof (cases "retryCh s")
  case None
  then show ?thesis by (simp add: recv_retry_def)
next
  case (Some j)
  show ?thesis
  proof (cases "j = i")
    case True
    then show ?thesis using Some
      by (cases "i < length (timers s)") (simp_all add: recv_retry_def list_update_beyond)
  next
    case False
    then show ?thesis using Some by (simp add: recv_retry_def)
  qed
qed

lemma recv_retry_fields [simp]:
  "retryTimer (recv_retry s) = retryTimer s" "retryCh (recv_retry s) = retryCh s"
  "now (recv_retry s) = now s" "conflatedMessage (recv_retry s) = conflatedMessage s"
  by (auto simp: recv_retry_def split: option.splits)

lemma await_RecvIn:
  assumes "relay_inv d s ne" "await_V3 P (RecvIn v) s = Some s1"
  shows "conflatedMessage s1 = ConflateWith P (conflatedMessage s) v \<and> retryCh s1 = None \<and>
         retryTimer s1 = retryTimer s \<and> now s1 = now s"
  using assms by (auto simp: await_V3_def relay_inv_def Stop_def Let_def split: option.splits)

lemma await_RecvRetry:
  assumes "await_V3 P RecvRetry s = Some s1"
  shows "retry_ready s \<and> s1 = recv_retry s"
  using assms by (auto simp: await_V3_def split: if_splits)

lemma attempt_True:
  "attempt_V3 P d True s = (s\<lparr>conflatedMessage := ZeroValue P (conflatedMessage s)\<rparr>, Some (conflatedMessage s))"
  by (simp add: attempt_V3_def)

lemma attempt_False:
  "attempt_V3 P d False s = (s1, out) \<Longrightarrow>
     out = None \<and> conflatedMessage s1 = conflatedMessage s \<and> relay_inv d s1 True"
  by (auto simp: attempt_V3_def NewTimer_def relay_inv_def armed_def pending_def)

lemma step_inv:
  assumes "relay_inv d s (pend \<noteq> [])" "conflatedMessage s = foldl (ConflateWith P) a pend"
    and "step_V3 P d e s = Some (s1, out)"
  shows "case e of
           Wait n \<Rightarrow> out = None \<and> relay_inv d s1 (pend \<noteq> []) \<and> conflatedMessage s1 = conflatedMessage s
         | Iter c ready \<Rightarrow>
             (let pend1 = (case c of RecvIn v \<Rightarrow> pend @ [v] | RecvRetry \<Rightarrow> pend) in
              pend1 \<noteq> [] \<and>
              (if ready then out = Some (foldl (ConflateWith P) a pend1) \<and>
                    conflatedMessage s1 = ZeroValue P (foldl (ConflateWith P) a pend1) \<and>
                    relay_inv d s1 False
               else out = None \<and> conflatedMessage s1 = foldl (ConflateWith P) a pend1 \<and>
                    relay_inv d s1 True))"
proof (cases e)
  case (Wait n)
  with assms show ?thesis by (auto simp: step_V3_def relay_inv_def)
next
  case (Iter c ready)
  then obtain s0 where a: "await_V3 P c s = Some s0" and b: "attempt_V3 P d ready s0 = (s1, out)"
    using assms(3) by (auto simp: step_V3_def split: option.splits)
  show ?thesis
  proof (cases c)
    case (RecvIn v)
    from await_RecvIn[OF assms(1) a[unfolded RecvIn]]
    have f: "conflatedMessage s0 = ConflateWith P (conflatedMessage s) v" "retryCh s0 = None"
      by auto
    show ?thesis
    proof (cases ready)
      case True
      with b f assms(2) Iter RecvIn show ?thesis
        by (auto simp: attempt_True relay_inv_def not_armed_None)
    next
      case False
      with attempt_False[of P d s0 s1 out] b f assms(2) Iter RecvIn show ?thesis
        by auto
    qed
  next
    case RecvRetry
    from await_RecvRetry[OF a[unfolded RecvRetry]]
    have f: "retry_ready s" "s0 = recv_retry s" by auto
    then have ne: "pend \<noteq> []" using assms(1) retry_ready_armed by (auto simp: relay_inv_def)
    have i0: "relay_inv d s0 False" using assms(1) f
      by (auto simp: relay_inv_def not_armed_recv_retry)
    show ?thesis
    proof (cases ready)
      case True
      with b f assms(2) Iter RecvRetry ne i0 show ?thesis
        by (auto simp: attempt_True relay_inv_def)
    next
      case False
      with attempt_False[of P d s0 s1 out] b f assms(2) Iter RecvRetry ne show ?thesis
        by auto
    qed
  qed
qed

lemma run_grouping:
  assumes "run_V3 P d tr s = Some (s', ds)"
    and "relay_inv d s (pend \<noteq> [])" "conflatedMessage s = foldl (ConflateWith P) a pend"
  shows "pend @ submitted tr = concat (fst (grouping tr pend)) @ snd (grouping tr pend) \<and>
         [] \<notin> set (fst (grouping tr pend)) \<and>
         ds = group_folds P a (fst (grouping tr pend)) \<and>
         conflatedMessage s' =
           foldl (ConflateWith P) (start_after P a (fst (grouping tr pend))) (snd (grouping tr pend)) \<and>
         relay_inv d s' (snd (grouping tr pend) \<noteq> [])"
  using assms
proof (induction tr arbitrary: s ds pend a)
  case Nil
  then show ?case by simp
next
  case (Cons e es)
  from Cons.prems(1) obtain s1 out ds1 where
    st: "step_V3 P d e s = Some (s1, out)" and
    rn: "run_V3 P d es s1 = Some (s', ds1)" and
    ds: "ds = (case out of None \<Rightarrow> ds1 | Some v \<Rightarrow> v # ds1)"
    by (auto split: option.splits prod.splits)
  note si = step_inv[OF Cons.prems(2,3) st]
  show ?case
  proof (cases e)
    case (Wait n)
    with si have "out = None" "relay_inv d s1 (pend \<noteq> [])" "conflatedMessage s1 = foldl (ConflateWith P) a pend"
      using Cons.prems(3) by auto
    with Cons.IH[OF rn, of pend a] ds Wait show ?thesis by simp
  next
    case (Iter c ready)
    define pend1 where "pend1 = (case c of RecvIn v \<Rightarrow> pend @ [v] | RecvRetry \<Rightarrow> pend)"
    have sub: "pend @ submitted (e # es) = pend1 @ submitted es"
      using Iter by (cases c) (auto simp: pend1_def)
    show ?thesis
    proof (cases ready)
      case True
      with si Iter have o: "out = Some (foldl (ConflateWith P) a pend1)"
        and c: "conflatedMessage s1 = foldl (ConflateWith P) (ZeroValue P (foldl (ConflateWith P) a pend1)) []"
        and i: "relay_inv d s1 (([]::'a list) \<noteq> [])" and ne: "pend1 \<noteq> []"
        by (auto simp: pend1_def Let_def)
      from Cons.IH[OF rn i c] ds o sub ne Iter True show ?thesis
        by (simp add: pend1_def[symmetric] Let_def)
    next
      case False
      with si Iter have o: "out = None"
        and c: "conflatedMessage s1 = foldl (ConflateWith P) a pend1"
        and i: "relay_inv d s1 (pend1 \<noteq> [])"
        by (auto simp: pend1_def Let_def)
      from Cons.IH[OF rn i c] ds o sub Iter False show ?thesis
        by (simp add: pend1_def[symmetric] Let_def)
    qed
  qed
qed


lemma ConflateV3_inv: "relay_inv d (ConflateV3 zeroT t0) False"
  by (simp add: relay_inv_def ConflateV3_def armed_def)

lemma run_V3_append:
  "run_V3 P d (xs @ ys) s =
     (case run_V3 P d xs s of
        None \<Rightarrow> None
      | Some (s1, ds1) \<Rightarrow>
          (case run_V3 P d ys s1 of
             None \<Rightarrow> None
           | Some (s2, ds2) \<Rightarrow> Some (s2, ds1 @ ds2)))"
  by (induction xs arbitrary: s) (auto split: option.splits)

lemma run_V3_start:
  assumes "run_V3 P d tr (ConflateV3 zeroT t0) = Some (s, ds)"
  shows "submitted tr = concat (fst (grouping tr [])) @ snd (grouping tr []) \<and>
         [] \<notin> set (fst (grouping tr [])) \<and>
         ds = group_folds P zeroT (fst (grouping tr [])) \<and>
         conflatedMessage s =
           foldl (ConflateWith P) (start_after P zeroT (fst (grouping tr []))) (snd (grouping tr [])) \<and>
         relay_inv d s (snd (grouping tr []) \<noteq> [])"
  using run_grouping[OF assms, of "[]" zeroT] ConflateV3_inv[of d zeroT t0]
  by (simp add: ConflateV3_def)

lemma group_folds_const:
  "\<forall>x. ZeroValue P x = z \<Longrightarrow> [] \<notin> set gs \<Longrightarrow>
     group_folds P z gs = map (foldl (ConflateWith P) z) gs"
  by (induction gs) auto

lemma start_after_const:
  "\<forall>x. ZeroValue P x = z \<Longrightarrow> start_after P z gs = z"
  by (induction gs) auto

lemma await_RecvIn_total: "\<exists>s1. await_V3 P (RecvIn v) s = Some s1"
  by (simp add: await_V3_def Let_def split: option.splits)

lemma Stop_cancels:
  assumes "i < length (timers s)"
  shows "stopped (timers (Stop i s) ! i) \<or> deadline (timers (Stop i s) ! i) \<le> now (Stop i s)"
  using assms by (auto simp: Stop_def)

lemma submitted_retries [simp]: "submitted (retries d k) = []"
  by (induction k) auto

lemma attempt_False_now: "now (fst (attempt_V3 P d False s)) = now s"
  by (simp add: attempt_V3_def NewTimer_def)

lemma inv_retry_ready:
  assumes "relay_inv d s True"
  shows "retry_ready (s\<lparr>now := now s + int (nat d)\<rparr>)"
proof -
  from assms obtain i where i: "retryCh s = Some i" "i < length (timers s)"
    "pending (timers s ! i)" "deadline (timers s ! i) \<le> now s + d"
    by (auto simp: relay_inv_def armed_def split: option.splits)
  then show ?thesis
    by (auto simp: retry_ready_def readable_def pending_def simp del: int_nat_eq)
qed

lemma retries_deliver:
  assumes "relay_inv d s True"
  shows "\<exists>s'. run_V3 P d (retries d k) s = Some (s', [conflatedMessage s]) \<and>
              conflatedMessage s' = ZeroValue P (conflatedMessage s) \<and>
              now s' = now s + int (Suc k) * int (nat d)"
  using assms
proof (induction k arbitrary: s)
  case 0
  define sw where "sw = s\<lparr>now := now s + int (nat d)\<rparr>"
  have rr: "retry_ready sw" using inv_retry_ready[OF 0] by (simp add: sw_def del: int_nat_eq)
  have "run_V3 P d (retries d 0) s =
          Some ((recv_retry sw)\<lparr>conflatedMessage := ZeroValue P (conflatedMessage s)\<rparr>,
                [conflatedMessage s])"
    using rr by (simp add: step_V3_def await_V3_def attempt_True sw_def[symmetric] del: int_nat_eq)
       (simp add: sw_def del: int_nat_eq)
  then show ?case by (auto simp: sw_def simp del: int_nat_eq)
next
  case (Suc k)
  define sw where "sw = s\<lparr>now := now s + int (nat d)\<rparr>"
  define s2 where "s2 = fst (attempt_V3 P d False (recv_retry sw))"
  have rr: "retry_ready sw" using inv_retry_ready[OF Suc.prems]
    by (simp add: sw_def del: int_nat_eq)
  have at: "attempt_V3 P d False (recv_retry sw) = (s2, snd (attempt_V3 P d False (recv_retry sw)))"
    by (simp add: s2_def)
  from attempt_False[OF at] have o: "snd (attempt_V3 P d False (recv_retry sw)) = None"
    and c2: "conflatedMessage s2 = conflatedMessage s" and i2: "relay_inv d s2 True"
    by (simp_all add: sw_def del: int_nat_eq)
  have n2: "now s2 = now s + int (nat d)"
    by (simp add: s2_def attempt_False_now sw_def del: int_nat_eq)
  from Suc.IH[OF i2] obtain s' where
    r: "run_V3 P d (retries d k) s2 = Some (s', [conflatedMessage s2])"
    and c: "conflatedMessage s' = ZeroValue P (conflatedMessage s2)"
    and n: "now s' = now s2 + int (Suc k) * int (nat d)"
    by blast
  have at': "attempt_V3 P d False (recv_retry sw) = (s2, None)"
    using at o by simp
  have "run_V3 P d (retries d (Suc k)) s = Some (s', [conflatedMessage s])"
    using rr r c2
    by (simp add: step_V3_def await_V3_def sw_def[symmetric] at' del: int_nat_eq)
  moreover have "now s' = now s + int (Suc (Suc k)) * int (nat d)"
    using n n2 by (simp add: algebra_simps del: int_nat_eq)
  ultimately show ?case using c c2 by auto
qed

subsection \<open>\<^verbatim>\<open>ConflateV2\<close> runs as \<^verbatim>\<open>ConflateV3\<close> does with the latest-value conflater\<close>

lemma V3_of_fields [simp]:
  "retryTimer (V3_of s) = retryTimer s" "retryCh (V3_of s) = retryCh s"
  "timers (V3_of s) = timers s" "now (V3_of s) = now s" "conflatedMessage (V3_of s) = lastMsg s"
  by (simp_all add: V3_of_def)

lemma retry_ready_V3_of [simp]: "retry_ready (V3_of s) = retry_ready s"
  by (simp add: retry_ready_def split: option.splits)

lemma await_V2_sim: "await_V3 Latest c (V3_of s) = map_option V3_of (await_V2 c s)"
  by (cases c)
     (auto simp: await_V3_def await_V2_def Latest_def V3_of_def Stop_def recv_retry_def
        Let_def retry_ready_def split: option.splits)

lemma attempt_V2_sim:
  "attempt_V3 Latest d r (V3_of s) = (V3_of (fst (attempt_V2 d r s)), snd (attempt_V2 d r s))"
  by (auto simp: attempt_V3_def attempt_V2_def Latest_def V3_of_def NewTimer_def)

lemma step_V2_sim:
  "step_V3 Latest d e (V3_of s) = map_option (\<lambda>(s', out). (V3_of s', out)) (step_V2 d e s)"
proof (cases e)
  case (Wait n)
  then show ?thesis by (simp add: step_V3_def step_V2_def V3_of_def)
next
  case (Iter c r)
  then show ?thesis
    by (cases "await_V2 c s")
       (simp_all add: step_V3_def step_V2_def await_V2_sim attempt_V2_sim split_beta)
qed

lemma run_V2_sim:
  "run_V3 Latest d tr (V3_of s) = map_option (\<lambda>(s', ds). (V3_of s', ds)) (run_V2 d tr s)"
proof (induction tr arbitrary: s)
  case Nil
  then show ?case by simp
next
  case (Cons e es)
  show ?case
  proof (cases "step_V2 d e s")
    case None
    then show ?thesis by (simp add: step_V2_sim)
  next
    case (Some p)
    obtain s1 out where p: "p = (s1, out)" by (cases p)
    show ?thesis
      using Some p Cons.IH[of s1]
      by (cases "run_V2 d es s1") (auto simp: step_V2_sim)
  qed
qed

lemma foldl_Latest: "foldl (ConflateWith Latest) a xs = (if xs = [] then a else last xs)"
  by (induction xs arbitrary: a) (auto simp: Latest_def)

lemma ZeroValue_Latest: "ZeroValue Latest a = a"
  by (simp add: Latest_def)

lemma group_folds_Latest: "[] \<notin> set gs \<Longrightarrow> group_folds Latest a gs = map last gs"
  by (induction gs arbitrary: a) (auto simp: foldl_Latest)

lemma start_after_Latest:
  "[] \<notin> set gs \<Longrightarrow> start_after Latest a gs = (if gs = [] then a else last (concat gs))"
proof (induction gs arbitrary: a)
  case Nil
  then show ?case by simp
next
  case (Cons g gs)
  then have "g \<noteq> []" "[] \<notin> set gs" by auto
  with Cons.IH[of "ZeroValue Latest (foldl (ConflateWith Latest) a g)"] show ?case
    by (cases gs) (auto simp: foldl_Latest ZeroValue_Latest)
qed

lemma run_V2_append:
  "run_V2 d (xs @ ys) s =
     (case run_V2 d xs s of
        None \<Rightarrow> None
      | Some (s1, ds1) \<Rightarrow>
          (case run_V2 d ys s1 of
             None \<Rightarrow> None
           | Some (s2, ds2) \<Rightarrow> Some (s2, ds1 @ ds2)))"
  by (induction xs arbitrary: s) (auto split: option.splits)

lemma submitted_append: "submitted (xs @ ys) = submitted xs @ submitted ys"
  by (induction xs rule: submitted.induct) auto

lemma length_grouping: "length (fst (grouping tr pend)) = length (filter is_handover tr)"
proof (induction tr arbitrary: pend)
  case Nil
  then show ?case by simp
next
  case (Cons e es)
  then show ?case by (cases e) (auto simp: Let_def)
qed

lemma lastMsg_recv_retry: "lastMsg (recv_retry s) = lastMsg s"
  by (simp add: recv_retry_def split: option.splits)

lemma run_V2_start:
  assumes "run_V2 d tr (ConflateV2 zeroT t0) = Some (s, ds)"
  shows "submitted tr = concat (fst (grouping tr [])) @ snd (grouping tr []) \<and>
         [] \<notin> set (fst (grouping tr [])) \<and>
         ds = map last (fst (grouping tr [])) \<and>
         lastMsg s = (if submitted tr = [] then zeroT else last (submitted tr)) \<and>
         (retry_ready s \<longrightarrow> submitted tr \<noteq> [])"
proof -
  have v: "V3_of (ConflateV2 zeroT t0) = ConflateV3 zeroT t0"
    by (simp add: V3_of_def ConflateV2_def ConflateV3_def)
  from assms have r: "run_V3 Latest d tr (ConflateV3 zeroT t0) = Some (V3_of s, ds)"
    using run_V2_sim[of d tr "ConflateV2 zeroT t0"] by (simp add: v)
  define gs where "gs = fst (grouping tr [])"
  define pend where "pend = snd (grouping tr [])"
  from run_V3_start[OF r] have sub: "submitted tr = concat gs @ pend"
    and ne: "[] \<notin> set gs" and dd: "ds = group_folds Latest zeroT gs"
    and cm: "lastMsg s = foldl (ConflateWith Latest) (start_after Latest zeroT gs) pend"
    and inv: "relay_inv d (V3_of s) (pend \<noteq> [])"
    by (simp_all add: gs_def pend_def)
  have d1: "ds = map last gs" using dd ne by (simp add: group_folds_Latest)
  have cne: "concat gs \<noteq> []" if "gs \<noteq> []"
    using that ne by (cases gs) auto
  have d3: "lastMsg s = (if submitted tr = [] then zeroT else last (submitted tr))"
    using cm sub ne cne by (auto simp: foldl_Latest start_after_Latest)
  have d4: "submitted tr \<noteq> []" if "retry_ready s"
  proof -
    from that have "retry_ready (V3_of s)" by simp
    then have "armed (V3_of s)" by (rule retry_ready_armed)
    with inv have "pend \<noteq> []" by (simp add: relay_inv_def)
    with sub show ?thesis by simp
  qed
  from sub ne d1 d3 d4 show ?thesis by (simp add: gs_def pend_def)
qed

lemma V2_handover:
  assumes "run_V2 d (tr @ [Iter c True]) (ConflateV2 zeroT t0) = Some (s, ds)"
  shows "submitted (tr @ [Iter c True]) \<noteq> [] \<and>
         (\<exists>s1 ds1. run_V2 d tr (ConflateV2 zeroT t0) = Some (s1, ds1) \<and>
             ds = ds1 @ [last (submitted (tr @ [Iter c True]))])"
proof -
  from assms obtain s1 ds1 out where
    r1: "run_V2 d tr (ConflateV2 zeroT t0) = Some (s1, ds1)" and
    st: "step_V2 d (Iter c True) s1 = Some (s, out)" and
    ds: "ds = ds1 @ (case out of None \<Rightarrow> [] | Some v \<Rightarrow> [v])"
    by (auto simp: run_V2_append split: option.splits prod.splits)
  from st obtain s' where aw: "await_V2 c s1 = Some s'" and o: "out = Some (lastMsg s')"
    by (auto simp: step_V2_def attempt_V2_def split: option.splits)
  note g = run_V2_start[OF r1]
  have "submitted (tr @ [Iter c True]) \<noteq> [] \<and>
        lastMsg s' = last (submitted (tr @ [Iter c True]))"
  proof (cases c)
    case (RecvIn v)
    with aw have "lastMsg s' = v"
      by (auto simp: await_V2_def Let_def Stop_def split: option.splits)
    with RecvIn show ?thesis by (simp add: submitted_append)
  next
    case RecvRetry
    with aw have rr: "retry_ready s1" and e: "s' = recv_retry s1"
      by (auto simp: await_V2_def split: if_splits)
    from g rr have ne: "submitted tr \<noteq> []" by blast
    with g e have "lastMsg s' = last (submitted tr)"
      by (simp add: lastMsg_recv_retry)
    with ne RecvRetry show ?thesis by (simp add: submitted_append)
  qed
  with r1 ds o show ?thesis by simp
qed

lemma feq_zero_sum:
  "x \<noteq> NaN \<Longrightarrow> feq (if x = NegZero then Fin 0 else x) x"
  by (simp add: feq_def)

section \<open>The claims\<close>

subsection \<open>What every run of \<^verbatim>\<open>ConflateV3\<close> delivers\<close>

text \<open>
  Every run cuts the submitted values, in order, into non-empty groups, one per value handed
  over, and a rest that is still in the accumulator. The value handed over for a group is
  the fold of the group with \<^verbatim>\<open>ConflateWith\<close>; the fold starts from the zero value of \<^verbatim>\<open>T\<close>
  for the first group and from \<^verbatim>\<open>ZeroValue()\<close> of the value handed over before for every
  later group. The accumulator is the fold of the rest.
\<close>

theorem run_V3_partition:
  assumes "run_V3 P d tr (ConflateV3 zeroT t0) = Some (s, ds)"
  shows "\<exists>gs pend. submitted tr = concat gs @ pend \<and> [] \<notin> set gs \<and>
           ds = group_folds P zeroT gs \<and>
           conflatedMessage s = foldl (ConflateWith P) (start_after P zeroT gs) pend"
  using run_V3_start[OF assms] by blast

text \<open>
  For a type whose \<^verbatim>\<open>ZeroValue()\<close> returns the zero value of the type, as \<^verbatim>\<open>Sale\<close> does,
  every fold starts from that value.
\<close>

theorem run_V3_partition_identity:
  assumes "run_V3 P d tr (ConflateV3 zeroT t0) = Some (s, ds)"
    and "\<forall>x. ZeroValue P x = zeroT"
  shows "\<exists>gs pend. submitted tr = concat gs @ pend \<and> [] \<notin> set gs \<and>
           ds = map (foldl (ConflateWith P) zeroT) gs \<and>
           conflatedMessage s = foldl (ConflateWith P) zeroT pend"
  using run_V3_start[OF assms(1)] group_folds_const[OF assms(2)] start_after_const[OF assms(2)]
  by metis

text \<open>
  C1 (no-loss partition). The claim folds every group from \<^verbatim>\<open>identity()\<close>. The loop never
  calls \<^verbatim>\<open>ZeroValue()\<close> before the first hand-over: \<^verbatim>\<open>var conflatedMessage T\<close> starts the first
  group from the zero value of \<^verbatim>\<open>T\<close>. With \<^verbatim>\<open>Low\<close> (minimum, \<^verbatim>\<open>ZeroValue()\<close> = \<^verbatim>\<open>math.MaxInt64\<close>),
  one submission of \<open>5\<close> to a ready consumer hands over \<open>0\<close>; no non-empty group of the
  submitted values folds from \<^verbatim>\<open>identity()\<close> to \<open>0\<close>, and the \<open>5\<close> is lost.
\<close>

theorem C1_first_group_not_folded_from_identity:
  "run_V3 Low_Conflater 1000000 [Iter (RecvIn 5) True] (ConflateV3 0 0) =
     Some (\<lparr>retryTimer = None, retryCh = None, timers = [], now = 0,
            conflatedMessage = 9223372036854775807\<rparr>, [0]) \<and>
   submitted [Iter (RecvIn (5::int)) True] = [5] \<and>
   \<not> (\<exists>gs. concat gs = [5] \<and> [] \<notin> set gs \<and>
          [0] = map (foldl (ConflateWith Low_Conflater) (ZeroValue Low_Conflater 0)) gs)"
proof -
  have "False" if "concat gs = [5]"
    "[0] = map (foldl (ConflateWith Low_Conflater) (ZeroValue Low_Conflater 0)) gs"
    for gs :: "int list list"
  proof -
    from that(2) obtain g where g: "gs = [g]"
      "foldl (ConflateWith Low_Conflater) (ZeroValue Low_Conflater 0) g = 0"
      by (auto simp: Cons_eq_map_conv)
    with that(1) have "g = [5]" by simp
    with g(2) show False by (simp add: Low_Conflater_def)
  qed
  then show ?thesis
    by (auto simp: run_defs Low_Conflater_def)
qed

text \<open>
  C2 (accumulator invariant). The claim has the accumulator start at \<^verbatim>\<open>identity()\<close>. It
  starts at the zero value of \<^verbatim>\<open>T\<close>: for \<^verbatim>\<open>Low\<close> that is \<open>0\<close>, while \<^verbatim>\<open>ZeroValue()\<close> is
  \<^verbatim>\<open>math.MaxInt64\<close>. After \<open>5\<close> was received and the consumer was not ready, the accumulator
  is \<open>0\<close>, while the fold from \<^verbatim>\<open>identity()\<close> of the values received since the start is \<open>5\<close>.
\<close>

theorem C2_accumulator_starts_at_zero_value_of_T:
  "conflatedMessage (ConflateV3 (0::int) 0) = 0 \<and>
   ZeroValue Low_Conflater (conflatedMessage (ConflateV3 (0::int) 0)) = 9223372036854775807 \<and>
   map_option (conflatedMessage \<circ> fst)
     (run_V3 Low_Conflater 1000000 [Iter (RecvIn 5) False] (ConflateV3 0 0)) = Some 0 \<and>
   submitted [Iter (RecvIn (5::int)) False] = [5] \<and>
   foldl (ConflateWith Low_Conflater) (ZeroValue Low_Conflater 0) [5] = 5"
  by (simp add: run_defs Low_Conflater_def)

subsection \<open>The retry timer\<close>

text \<open>
  C3, as stated, fails: a hand-over that succeeds stops and clears nothing. A sale is
  received while the consumer is not ready, the timer expires, its value is received and
  the consumer is ready: after the hand-over \<^verbatim>\<open>retryTimer\<close> and \<^verbatim>\<open>retryCh\<close> still point at
  the timer, which was never stopped.
\<close>

theorem C3_success_clears_nothing:
  "run_V3 Sale_Conflater 1000000
     [Iter (RecvIn sale1) False, Wait 1000000, Iter RecvRetry True] (ConflateV3 zero_Sale 0) =
   Some (\<lparr>retryTimer = Some 0, retryCh = Some 0,
          timers = [\<lparr>deadline = 1000000, stopped = False, received = True\<rparr>],
          now = 1000000, conflatedMessage = zero_Sale\<rparr>, [sale1])"
  by (simp add: run_defs sale_defs)

text \<open>
  C3 (pending-retry clearing), amended. In every state a run reaches at the head of the
  loop: when an input arrives, \<^verbatim>\<open>retryCh\<close> is \<^verbatim>\<open>nil\<close> afterwards, no timer is armed, and a
  timer that was armed is stopped unless it had already expired; when a hand-over
  succeeds, the second \<^verbatim>\<open>select\<close> leaves \<^verbatim>\<open>retryTimer\<close>, \<^verbatim>\<open>retryCh\<close> and every timer as they
  were, and no timer is armed: \<^verbatim>\<open>retryCh\<close> is \<^verbatim>\<open>nil\<close> or the channel of a timer whose value
  was already received.
\<close>

theorem C3_pending_retry_clearing:
  assumes "run_V3 P d tr (ConflateV3 zeroT t0) = Some (s, ds)"
  shows "(\<forall>v. \<exists>s1. await_V3 P (RecvIn v) s = Some s1 \<and> retryCh s1 = None \<and> \<not> armed s1 \<and>
            (\<forall>i. armed s \<and> retryCh s = Some i \<longrightarrow>
               stopped (timers s1 ! i) \<or> deadline (timers s1 ! i) \<le> now s1)) \<and>
         (\<forall>c s1. await_V3 P c s = Some s1 \<longrightarrow>
            retryTimer (fst (attempt_V3 P d True s1)) = retryTimer s1 \<and>
            retryCh (fst (attempt_V3 P d True s1)) = retryCh s1 \<and>
            timers (fst (attempt_V3 P d True s1)) = timers s1 \<and>
            \<not> armed (fst (attempt_V3 P d True s1)))"
proof -
  from run_V3_start[OF assms] have inv: "relay_inv d s (snd (grouping tr []) \<noteq> [])"
    and cm: "conflatedMessage s = foldl (ConflateWith P)
       (start_after P zeroT (fst (grouping tr []))) (snd (grouping tr []))"
    by simp_all
  have A: "\<exists>s1. await_V3 P (RecvIn v) s = Some s1 \<and> retryCh s1 = None \<and> \<not> armed s1 \<and>
            (\<forall>i. armed s \<and> retryCh s = Some i \<longrightarrow>
               stopped (timers s1 ! i) \<or> deadline (timers s1 ! i) \<le> now s1)" for v
  proof -
    obtain s1 where aw: "await_V3 P (RecvIn v) s = Some s1"
      using await_RecvIn_total[of P v s] by auto
    from await_RecvIn[OF inv aw] have n: "retryCh s1 = None" by simp
    have "stopped (timers s1 ! i) \<or> deadline (timers s1 ! i) \<le> now s1"
      if "armed s" "retryCh s = Some i" for i
    proof -
      from that have len: "i < length (timers s)" by (auto simp: armed_def)
      from that inv have rt: "retryTimer s = Some i" by (auto simp: relay_inv_def)
      define s0 where "s0 = s\<lparr>conflatedMessage := ConflateWith P (conflatedMessage s) v\<rparr>"
      have "s1 = (Stop i s0)\<lparr>retryCh := None\<rparr>"
        using aw rt by (simp add: await_V3_def s0_def Let_def)
      moreover have "i < length (timers s0)" using len by (simp add: s0_def)
      ultimately show ?thesis using Stop_cancels[of i s0] by simp
    qed
    with aw n show ?thesis by (auto simp: not_armed_None)
  qed
  have B: "retryTimer (fst (attempt_V3 P d True s1)) = retryTimer s1 \<and>
            retryCh (fst (attempt_V3 P d True s1)) = retryCh s1 \<and>
            timers (fst (attempt_V3 P d True s1)) = timers s1 \<and>
            \<not> armed (fst (attempt_V3 P d True s1))"
    if aw: "await_V3 P c s = Some s1" for c s1
  proof -
    have st: "step_V3 P d (Iter c True) s =
        Some (fst (attempt_V3 P d True s1), snd (attempt_V3 P d True s1))"
      using aw by (simp add: step_V3_def)
    from step_inv[OF inv cm st] have "relay_inv d (fst (attempt_V3 P d True s1)) False"
      by (simp add: Let_def)
    then have "\<not> armed (fst (attempt_V3 P d True s1))" by (simp add: relay_inv_def)
    then show ?thesis by (simp add: attempt_True)
  qed
  from A B show ?thesis by blast
qed

text \<open>
  The amended C3 on a run: \<open>sale1\<close> is received while the consumer is not ready, which arms
  timer \<open>0\<close>; when \<open>sale2\<close> arrives, \<^verbatim>\<open>retryCh\<close> becomes \<^verbatim>\<open>nil\<close> and the timer is stopped.
\<close>

theorem C3_pending_retry_clearing_witness:
  "run_V3 Sale_Conflater 1000000 [Iter (RecvIn sale1) False] (ConflateV3 zero_Sale 0) =
     Some (\<lparr>retryTimer = Some 0, retryCh = Some 0,
            timers = [\<lparr>deadline = 1000000, stopped = False, received = False\<rparr>],
            now = 0, conflatedMessage = sale1\<rparr>, []) \<and>
   (\<exists>s1. await_V3 Sale_Conflater (RecvIn sale2)
           \<lparr>retryTimer = Some 0, retryCh = Some 0,
            timers = [\<lparr>deadline = 1000000, stopped = False, received = False\<rparr>],
            now = 0, conflatedMessage = sale1\<rparr> = Some s1 \<and>
         retryCh s1 = None \<and> \<not> armed s1 \<and>
         (stopped (timers s1 ! 0) \<or> deadline (timers s1 ! 0) \<le> now s1))"
proof -
  let ?S = "\<lparr>retryTimer = Some 0, retryCh = Some 0,
            timers = [\<lparr>deadline = 1000000, stopped = False, received = False\<rparr>],
            now = 0, conflatedMessage = sale1\<rparr>"
  have h: "run_V3 Sale_Conflater 1000000 [Iter (RecvIn sale1) False] (ConflateV3 zero_Sale 0) =
     Some (?S, [])"
    by (simp add: run_defs sale_defs)
  have a: "armed ?S \<and> retryCh ?S = Some 0"
    by (simp add: armed_def pending_def)
  from C3_pending_retry_clearing[OF h] obtain s1 where
    "await_V3 Sale_Conflater (RecvIn sale2) ?S = Some s1" "retryCh s1 = None" "\<not> armed s1"
    "\<forall>i. armed ?S \<and> retryCh ?S = Some i \<longrightarrow>
       stopped (timers s1 ! i) \<or> deadline (timers s1 ! i) \<le> now s1"
    by blast
  with a h show ?thesis by blast
qed

subsection \<open>After a hand-over\<close>

text \<open>
  C4 (idempotent reset). After every iteration of a run that hands a value over, the
  accumulator is \<^verbatim>\<open>ZeroValue()\<close> of the value just handed over and no timer is armed, so the
  case \<^verbatim>\<open>case <-retryCh:\<close> cannot be taken: whatever follows without a new submission
  hands nothing over and leaves the accumulator as it is. Every value a run hands over is
  the fold of a non-empty group of submitted values, never the bare reset value.
\<close>

theorem C4_idempotent_reset:
  assumes "run_V3 P d (tr @ [Iter c True]) (ConflateV3 zeroT t0) = Some (s, ds)"
  shows "ds \<noteq> [] \<and> conflatedMessage s = ZeroValue P (last ds) \<and>
         \<not> armed s \<and> \<not> retry_ready s \<and> await_V3 P RecvRetry s = None \<and>
         (\<forall>tr' s' ds'. submitted tr' = [] \<and> run_V3 P d tr' s = Some (s', ds') \<longrightarrow>
            ds' = [] \<and> conflatedMessage s' = ZeroValue P (last ds)) \<and>
         (\<exists>gs. [] \<notin> set gs \<and> ds = group_folds P zeroT gs)"
proof -
  from assms obtain s1 ds1 out where
    r1: "run_V3 P d tr (ConflateV3 zeroT t0) = Some (s1, ds1)" and
    st: "step_V3 P d (Iter c True) s1 = Some (s, out)" and
    ds: "ds = ds1 @ (case out of None \<Rightarrow> [] | Some v \<Rightarrow> [v])"
    by (auto simp: run_V3_append split: option.splits prod.splits)
  note g1 = run_V3_start[OF r1]
  define a where "a = start_after P zeroT (fst (grouping tr []))"
  define pend where "pend = snd (grouping tr [])"
  from g1 have i1: "relay_inv d s1 (pend \<noteq> [])"
    and c1: "conflatedMessage s1 = foldl (ConflateWith P) a pend"
    by (simp_all add: a_def pend_def)
  from step_inv[OF i1 c1 st] obtain v where
    o: "out = Some v" and cs: "conflatedMessage s = ZeroValue P v" and i: "relay_inv d s False"
    by (auto simp: Let_def)
  have na: "\<not> armed s" using i by (simp add: relay_inv_def)
  then have nr: "\<not> retry_ready s" using retry_ready_armed by blast
  have quiet: "ds' = [] \<and> conflatedMessage s' = ZeroValue P v"
    if "submitted tr' = []" "run_V3 P d tr' s = Some (s', ds')" for tr' s' ds'
  proof -
    have i': "relay_inv d s (([]::'a list) \<noteq> [])" using i by simp
    have c': "conflatedMessage s = foldl (ConflateWith P) (ZeroValue P v) []" using cs by simp
    from run_grouping[OF that(2) i' c'] that(1)
    have e: "fst (grouping tr' []) = []" "snd (grouping tr' []) = []"
      and r: "ds' = group_folds P (ZeroValue P v) (fst (grouping tr' []))"
             "conflatedMessage s' = foldl (ConflateWith P)
                (start_after P (ZeroValue P v) (fst (grouping tr' []))) (snd (grouping tr' []))"
      by (cases "fst (grouping tr' [])"; auto)+
    then show ?thesis by simp
  qed
  from run_V3_start[OF assms] have "\<exists>gs. [] \<notin> set gs \<and> ds = group_folds P zeroT gs"
    by blast
  with o ds cs na nr quiet show ?thesis
    by (auto simp: await_V3_def)
qed

text \<open>
  C4 on a run: \<open>sale1\<close> and \<open>sale2\<close> are handed over as one sale of three dollars; the
  accumulator is \<^verbatim>\<open>Sale{}\<close> afterwards, the timer case cannot be taken, and two milliseconds
  of waiting hand nothing over.
\<close>

theorem C4_idempotent_reset_witness:
  "run_V3 Sale_Conflater 1000000 ([Iter (RecvIn sale1) False] @ [Iter (RecvIn sale2) True])
      (ConflateV3 zero_Sale 0) =
     Some (\<lparr>retryTimer = Some 0, retryCh = None,
            timers = [\<lparr>deadline = 1000000, stopped = True, received = False\<rparr>],
            now = 0, conflatedMessage = zero_Sale\<rparr>,
           [\<lparr>dollars = Fin 3, timestamp = \<lparr>instant = 1000000000, loc = 0\<rparr>\<rparr>]) \<and>
   zero_Sale = ZeroValue Sale_Conflater
      (last [\<lparr>dollars = Fin 3, timestamp = \<lparr>instant = 1000000000, loc = 0\<rparr>\<rparr>]) \<and>
   await_V3 Sale_Conflater RecvRetry
      \<lparr>retryTimer = Some 0, retryCh = None,
            timers = [\<lparr>deadline = 1000000, stopped = True, received = False\<rparr>],
            now = 0, conflatedMessage = zero_Sale\<rparr> = None \<and>
   submitted [Wait 2000000 :: Sale event] = [] \<and>
   run_V3 Sale_Conflater 1000000 [Wait 2000000]
      \<lparr>retryTimer = Some 0, retryCh = None,
            timers = [\<lparr>deadline = 1000000, stopped = True, received = False\<rparr>],
            now = 0, conflatedMessage = zero_Sale\<rparr> =
     Some (\<lparr>retryTimer = Some 0, retryCh = None,
            timers = [\<lparr>deadline = 1000000, stopped = True, received = False\<rparr>],
            now = 2000000, conflatedMessage = zero_Sale\<rparr>, [])"
proof -
  let ?S = "\<lparr>retryTimer = Some 0, retryCh = None,
            timers = [\<lparr>deadline = 1000000, stopped = True, received = False\<rparr>],
            now = 0, conflatedMessage = zero_Sale\<rparr>"
  let ?S' = "\<lparr>retryTimer = Some 0, retryCh = None,
            timers = [\<lparr>deadline = 1000000, stopped = True, received = False\<rparr>],
            now = 2000000, conflatedMessage = zero_Sale\<rparr>"
  let ?D = "[\<lparr>dollars = Fin 3, timestamp = \<lparr>instant = 1000000000, loc = 0\<rparr>\<rparr>]"
  have h: "run_V3 Sale_Conflater 1000000
      ([Iter (RecvIn sale1) False] @ [Iter (RecvIn sale2) True]) (ConflateV3 zero_Sale 0) =
     Some (?S, ?D)"
    by (simp add: run_defs sale_defs)
  have q: "submitted [Wait 2000000 :: Sale event] = [] \<and>
      run_V3 Sale_Conflater 1000000 [Wait 2000000] ?S = Some (?S', [])"
    by (simp add: run_defs)
  from C4_idempotent_reset[OF h] have
    "conflatedMessage ?S = ZeroValue Sale_Conflater (last ?D)"
    "await_V3 Sale_Conflater RecvRetry ?S = None"
    "\<forall>tr' s' ds'. submitted tr' = [] \<and> run_V3 Sale_Conflater 1000000 tr' ?S = Some (s', ds') \<longrightarrow>
        ds' = [] \<and> conflatedMessage s' = ZeroValue Sale_Conflater (last ?D)"
    by blast+
  with h q show ?thesis by simp
qed

text \<open>
  C5 (retry cancellation). In every state a run reaches with a retry timer armed, a
  submission \<open>v\<close> is received; the timer is then stopped (unless it had already expired)
  and \<^verbatim>\<open>retryCh\<close> is \<^verbatim>\<open>nil\<close>, so its value is never received; the accumulator is
  \<^verbatim>\<open>ConflateWith\<close> of the old accumulator and \<open>v\<close>, and a ready consumer is handed exactly that
  one value: the run's hand-overs grow by this single value.
\<close>

theorem C5_retry_cancellation:
  assumes "run_V3 P d tr (ConflateV3 zeroT t0) = Some (s, ds)" and "armed s"
  shows "\<exists>i s1. retryCh s = Some i \<and> await_V3 P (RecvIn v) s = Some s1 \<and>
           (stopped (timers s1 ! i) \<or> deadline (timers s1 ! i) \<le> now s1) \<and>
           retryCh s1 = None \<and> \<not> retry_ready s1 \<and>
           conflatedMessage s1 = ConflateWith P (conflatedMessage s) v \<and>
           snd (attempt_V3 P d True s1) = Some (ConflateWith P (conflatedMessage s) v) \<and>
           (\<exists>s2. run_V3 P d (tr @ [Iter (RecvIn v) True]) (ConflateV3 zeroT t0) =
                   Some (s2, ds @ [ConflateWith P (conflatedMessage s) v]))"
proof -
  from run_V3_start[OF assms(1)] have inv: "relay_inv d s (snd (grouping tr []) \<noteq> [])"
    by simp
  from assms(2) obtain i where i: "retryCh s = Some i" "i < length (timers s)"
    by (auto simp: armed_def split: option.splits)
  with inv have rt: "retryTimer s = Some i" by (auto simp: relay_inv_def)
  define s0 where "s0 = s\<lparr>conflatedMessage := ConflateWith P (conflatedMessage s) v\<rparr>"
  define s1 where "s1 = (Stop i s0)\<lparr>retryCh := None\<rparr>"
  have aw: "await_V3 P (RecvIn v) s = Some s1"
    using rt by (simp add: await_V3_def s1_def s0_def Let_def)
  have len: "i < length (timers s0)" using i by (simp add: s0_def)
  have st: "stopped (timers s1 ! i) \<or> deadline (timers s1 ! i) \<le> now s1"
    using Stop_cancels[OF len] by (simp add: s1_def)
  have f: "retryCh s1 = None" "conflatedMessage s1 = ConflateWith P (conflatedMessage s) v"
    by (auto simp: s1_def s0_def Stop_def)
  have nr: "\<not> retry_ready s1" using f by (simp add: retry_ready_def)
  have at: "attempt_V3 P d True s1 =
      (s1\<lparr>conflatedMessage := ZeroValue P (conflatedMessage s1)\<rparr>,
       Some (ConflateWith P (conflatedMessage s) v))"
    using f by (simp add: attempt_True)
  have "run_V3 P d (tr @ [Iter (RecvIn v) True]) (ConflateV3 zeroT t0) =
          Some (s1\<lparr>conflatedMessage := ZeroValue P (conflatedMessage s1)\<rparr>,
                ds @ [ConflateWith P (conflatedMessage s) v])"
    using assms(1) aw at by (simp add: run_V3_append step_V3_def)
  with i aw st f nr at show ?thesis by auto
qed

text \<open>
  C5 on a run: \<open>sale2\<close> arrives while the timer armed for \<open>sale1\<close> is pending; the consumer
  gets one sale of three dollars.
\<close>

theorem C5_retry_cancellation_witness:
  "run_V3 Sale_Conflater 1000000 [Iter (RecvIn sale1) False] (ConflateV3 zero_Sale 0) =
     Some (\<lparr>retryTimer = Some 0, retryCh = Some 0,
            timers = [\<lparr>deadline = 1000000, stopped = False, received = False\<rparr>],
            now = 0, conflatedMessage = sale1\<rparr>, []) \<and>
   armed \<lparr>retryTimer = Some 0, retryCh = Some 0,
            timers = [\<lparr>deadline = 1000000, stopped = False, received = False\<rparr>],
            now = 0, conflatedMessage = sale1\<rparr> \<and>
   (\<exists>s2. run_V3 Sale_Conflater 1000000
           ([Iter (RecvIn sale1) False] @ [Iter (RecvIn sale2) True]) (ConflateV3 zero_Sale 0) =
         Some (s2, [] @ [\<lparr>dollars = Fin 3, timestamp = \<lparr>instant = 1000000000, loc = 0\<rparr>\<rparr>]))"
proof -
  let ?S = "\<lparr>retryTimer = Some 0, retryCh = Some 0,
            timers = [\<lparr>deadline = 1000000, stopped = False, received = False\<rparr>],
            now = 0, conflatedMessage = sale1\<rparr>"
  have h: "run_V3 Sale_Conflater 1000000 [Iter (RecvIn sale1) False] (ConflateV3 zero_Sale 0) =
     Some (?S, [])"
    by (simp add: run_defs sale_defs)
  have a: "armed ?S"
    by (simp add: armed_def pending_def)
  have m: "ConflateWith Sale_Conflater (conflatedMessage ?S) sale2 =
      \<lparr>dollars = Fin 3, timestamp = \<lparr>instant = 1000000000, loc = 0\<rparr>\<rparr>"
    by (simp add: sale_defs)
  from C5_retry_cancellation[OF h a, of sale2] m h a show ?thesis
    by auto
qed

subsection \<open>The first \<^verbatim>\<open>select\<close> with both cases ready\<close>

text \<open>
  C6, as stated, fails: the first \<^verbatim>\<open>select\<close> has no priority. \<open>sale1\<close> was received while the
  consumer was not ready and one retry interval has passed, so the timer's channel holds a
  value; the producer is sending \<open>sale2\<close>. Both cases can proceed, and the timer case can be
  the one taken: it leaves \<open>sale2\<close> with the producer and the accumulator at \<open>sale1\<close>.
\<close>

theorem C6_retry_taken_with_input_available:
  "run_V3 Sale_Conflater 1000000 [Iter (RecvIn sale1) False, Wait 1000000]
     (ConflateV3 zero_Sale 0) =
   Some (\<lparr>retryTimer = Some 0, retryCh = Some 0,
          timers = [\<lparr>deadline = 1000000, stopped = False, received = False\<rparr>],
          now = 1000000, conflatedMessage = sale1\<rparr>, []) \<and>
   select_ready (Some sale2)
      \<lparr>retryTimer = Some 0, retryCh = Some 0,
          timers = [\<lparr>deadline = 1000000, stopped = False, received = False\<rparr>],
          now = 1000000, conflatedMessage = sale1\<rparr> = [RecvIn sale2, RecvRetry] \<and>
   await_V3 Sale_Conflater RecvRetry
      \<lparr>retryTimer = Some 0, retryCh = Some 0,
          timers = [\<lparr>deadline = 1000000, stopped = False, received = False\<rparr>],
          now = 1000000, conflatedMessage = sale1\<rparr> =
     Some \<lparr>retryTimer = Some 0, retryCh = Some 0,
          timers = [\<lparr>deadline = 1000000, stopped = False, received = True\<rparr>],
          now = 1000000, conflatedMessage = sale1\<rparr>"
  by (simp add: run_defs select_ready_def sale_defs)

text \<open>
  C6 (tie-break), amended. With a value offered on \<^verbatim>\<open>inCh\<close>, the cases that can proceed are
  the input case alone when the timer's channel holds no value, and both cases when it
  does; each of them can be taken. When both can proceed: taking the timer case leaves the
  accumulator as it is; taking the input case conflates the value into the accumulator and,
  \<^verbatim>\<open>retryTimer\<close> not being \<^verbatim>\<open>nil\<close>, sets \<^verbatim>\<open>retryCh\<close> to \<^verbatim>\<open>nil\<close>.
\<close>

theorem C6_select_takes_any_ready_case:
  "select_ready (Some v) s = (if retry_ready s then [RecvIn v, RecvRetry] else [RecvIn v]) \<and>
   (\<forall>c \<in> set (select_ready (Some v) s). await_V3 P c s \<noteq> None) \<and>
   (retry_ready s \<longrightarrow>
      await_V3 P RecvRetry s = Some (recv_retry s) \<and>
      conflatedMessage (recv_retry s) = conflatedMessage s \<and>
      (\<exists>s1. await_V3 P (RecvIn v) s = Some s1 \<and>
            conflatedMessage s1 = ConflateWith P (conflatedMessage s) v \<and>
            (retryTimer s \<noteq> None \<longrightarrow> retryCh s1 = None)))"
  by (auto simp: select_ready_def await_V3_def Let_def Stop_def split: option.splits)

text \<open>C6, amended, on the state of the counterexample.\<close>

theorem C6_select_takes_any_ready_case_witness:
  "retry_ready \<lparr>retryTimer = Some 0, retryCh = Some 0,
            timers = [\<lparr>deadline = 1000000, stopped = False, received = False\<rparr>],
            now = 1000000, conflatedMessage = sale1\<rparr> \<and>
   select_ready (Some sale2)
      \<lparr>retryTimer = Some 0, retryCh = Some 0,
            timers = [\<lparr>deadline = 1000000, stopped = False, received = False\<rparr>],
            now = 1000000, conflatedMessage = sale1\<rparr> = [RecvIn sale2, RecvRetry] \<and>
   await_V3 Sale_Conflater RecvRetry
      \<lparr>retryTimer = Some 0, retryCh = Some 0,
            timers = [\<lparr>deadline = 1000000, stopped = False, received = False\<rparr>],
            now = 1000000, conflatedMessage = sale1\<rparr> =
     Some \<lparr>retryTimer = Some 0, retryCh = Some 0,
            timers = [\<lparr>deadline = 1000000, stopped = False, received = True\<rparr>],
            now = 1000000, conflatedMessage = sale1\<rparr> \<and>
   await_V3 Sale_Conflater (RecvIn sale2)
      \<lparr>retryTimer = Some 0, retryCh = Some 0,
            timers = [\<lparr>deadline = 1000000, stopped = False, received = False\<rparr>],
            now = 1000000, conflatedMessage = sale1\<rparr> \<noteq> None"
proof -
  let ?S = "\<lparr>retryTimer = Some 0, retryCh = Some 0,
            timers = [\<lparr>deadline = 1000000, stopped = False, received = False\<rparr>],
            now = 1000000, conflatedMessage = sale1\<rparr>"
  have r: "retry_ready ?S"
    by (simp add: retry_ready_def readable_def)
  have e: "recv_retry ?S = \<lparr>retryTimer = Some 0, retryCh = Some 0,
            timers = [\<lparr>deadline = 1000000, stopped = False, received = True\<rparr>],
            now = 1000000, conflatedMessage = sale1\<rparr>"
    by (simp add: recv_retry_def)
  from C6_select_takes_any_ready_case[of sale2 ?S Sale_Conflater] r e show ?thesis
    by auto
qed

subsection \<open>A hand-over that fails, and the retries after it\<close>

text \<open>
  C7 (failed-attempt frame). When the consumer is not ready, the second \<^verbatim>\<open>select\<close> hands
  nothing over, leaves \<^verbatim>\<open>conflatedMessage\<close> as it was, and points \<^verbatim>\<open>retryTimer\<close> and
  \<^verbatim>\<open>retryCh\<close> at one new timer that is armed and expires exactly \<open>retryInterval\<close> after
  the current clock; every older timer of the store is untouched.
\<close>

theorem C7_failed_attempt_frame:
  "snd (attempt_V3 P retryInterval False s) = None \<and>
   conflatedMessage (fst (attempt_V3 P retryInterval False s)) = conflatedMessage s \<and>
   retryTimer (fst (attempt_V3 P retryInterval False s)) = Some (length (timers s)) \<and>
   retryCh (fst (attempt_V3 P retryInterval False s)) = Some (length (timers s)) \<and>
   timers (fst (attempt_V3 P retryInterval False s)) =
     timers s @ [\<lparr>deadline = now s + retryInterval, stopped = False, received = False\<rparr>] \<and>
   now (fst (attempt_V3 P retryInterval False s)) = now s \<and>
   armed (fst (attempt_V3 P retryInterval False s))"
  by (simp add: attempt_V3_def NewTimer_def armed_def pending_def)

text \<open>
  C8 (eventual delivery). Let a run reach a state whose accumulator holds submitted values
  not yet handed over. Then a timer is armed and, one retry interval later, the timer case
  is the one case of the first \<^verbatim>\<open>select\<close> that can proceed when nothing is submitted. For
  every \<open>k\<close>, the events \<open>retries d k\<close> (no submission; \<open>k\<close> retries finding the consumer not
  ready, then one finding it ready, one retry interval apart) are an execution from that
  state: it hands over exactly one value, the whole accumulator, which is the fold of all
  values pending, \<open>k + 1\<close> retry intervals later, and then resets the accumulator.
\<close>

theorem C8_eventual_delivery:
  assumes "run_V3 P d tr (ConflateV3 zeroT t0) = Some (s, ds)"
    and "snd (grouping tr []) \<noteq> []"
  shows "armed s \<and>
         select_ready (None :: 'a option) (s\<lparr>now := now s + int (nat d)\<rparr>) = [RecvRetry] \<and>
         submitted (retries d k :: 'a event list) = [] \<and>
         conflatedMessage s =
           foldl (ConflateWith P) (start_after P zeroT (fst (grouping tr []))) (snd (grouping tr [])) \<and>
         (\<exists>s'. run_V3 P d (retries d k) s = Some (s', [conflatedMessage s]) \<and>
               run_V3 P d (tr @ retries d k) (ConflateV3 zeroT t0) =
                 Some (s', ds @ [conflatedMessage s]) \<and>
               now s' = now s + int (Suc k) * int (nat d) \<and>
               conflatedMessage s' = ZeroValue P (conflatedMessage s))"
proof -
  from run_V3_start[OF assms(1)] assms(2) have inv: "relay_inv d s True"
    and cm: "conflatedMessage s =
           foldl (ConflateWith P) (start_after P zeroT (fst (grouping tr []))) (snd (grouping tr []))"
    by simp_all
  have ar: "armed s" using inv by (simp add: relay_inv_def)
  have sr: "select_ready (None :: 'a option) (s\<lparr>now := now s + int (nat d)\<rparr>) = [RecvRetry]"
    using inv_retry_ready[OF inv] by (simp add: select_ready_def del: int_nat_eq)
  from retries_deliver[OF inv, of P k] obtain s' where
    "run_V3 P d (retries d k) s = Some (s', [conflatedMessage s])"
    "conflatedMessage s' = ZeroValue P (conflatedMessage s)"
    "now s' = now s + int (Suc k) * int (nat d)"
    by blast
  with assms(1) cm ar sr show ?thesis
    by (auto simp: run_V3_append simp del: int_nat_eq)
qed

text \<open>
  C8 on a run: \<open>sale1\<close> is pending; the consumer is not ready at the first retry and ready
  at the second; two milliseconds after the failed hand-over it receives \<open>sale1\<close>.
\<close>

theorem C8_eventual_delivery_witness:
  "run_V3 Sale_Conflater 1000000 [Iter (RecvIn sale1) False] (ConflateV3 zero_Sale 0) =
     Some (\<lparr>retryTimer = Some 0, retryCh = Some 0,
            timers = [\<lparr>deadline = 1000000, stopped = False, received = False\<rparr>],
            now = 0, conflatedMessage = sale1\<rparr>, []) \<and>
   snd (grouping [Iter (RecvIn sale1) False] []) \<noteq> [] \<and>
   (\<exists>s'. run_V3 Sale_Conflater 1000000 (retries 1000000 1)
           \<lparr>retryTimer = Some 0, retryCh = Some 0,
            timers = [\<lparr>deadline = 1000000, stopped = False, received = False\<rparr>],
            now = 0, conflatedMessage = sale1\<rparr> = Some (s', [sale1]) \<and>
         now s' = 2000000 \<and> conflatedMessage s' = zero_Sale)"
proof -
  let ?S = "\<lparr>retryTimer = Some 0, retryCh = Some 0,
            timers = [\<lparr>deadline = 1000000, stopped = False, received = False\<rparr>],
            now = 0, conflatedMessage = sale1\<rparr>"
  have h: "run_V3 Sale_Conflater 1000000 [Iter (RecvIn sale1) False] (ConflateV3 zero_Sale 0) =
     Some (?S, [])"
    by (simp add: run_defs sale_defs)
  have g: "snd (grouping [Iter (RecvIn sale1) False] []) \<noteq> []"
    by simp
  have z: "ZeroValue Sale_Conflater sale1 = zero_Sale"
    by (simp add: sale_defs)
  from C8_eventual_delivery[OF h g, of 1] obtain s' where
    "run_V3 Sale_Conflater 1000000 (retries 1000000 1) ?S = Some (s', [conflatedMessage ?S])"
    "now s' = now ?S + int (Suc 1) * int (nat 1000000)"
    "conflatedMessage s' = ZeroValue Sale_Conflater (conflatedMessage ?S)"
    by blast
  with h g z show ?thesis by auto
qed

subsection \<open>\<^verbatim>\<open>Sale\<close>\<close>

text \<open>
  C9, as stated, fails, on the timestamp and on the dollars. A \<^verbatim>\<open>time.Time\<close> can lie before
  the zero \<^verbatim>\<open>Time\<close>, and \<^verbatim>\<open>maxTime\<close> then returns the zero \<^verbatim>\<open>Time\<close>: a sale of one dollar dated
  one nanosecond before January 1 of year 1 comes back from \<^verbatim>\<open>ZeroValue().ConflateWith(s)\<close>
  dated at the zero \<^verbatim>\<open>Time\<close>, which is not \<^verbatim>\<open>== s\<close>. And a sale whose dollars are \<^verbatim>\<open>NaN\<close>
  comes back with dollars \<^verbatim>\<open>NaN\<close>, which is not \<^verbatim>\<open>== s\<close> either.
\<close>

theorem C9_zero_time_not_neutral_before_year_one:
  "Sale_ConflateWith (Sale_ZeroValue \<lparr>dollars = Fin 1, timestamp = \<lparr>instant = - 1, loc = 0\<rparr>\<rparr>)
      \<lparr>dollars = Fin 1, timestamp = \<lparr>instant = - 1, loc = 0\<rparr>\<rparr> =
     \<lparr>dollars = Fin 1, timestamp = \<lparr>instant = 0, loc = 0\<rparr>\<rparr> \<and>
   \<not> Sale_eq
      (Sale_ConflateWith (Sale_ZeroValue \<lparr>dollars = Fin 1, timestamp = \<lparr>instant = - 1, loc = 0\<rparr>\<rparr>)
         \<lparr>dollars = Fin 1, timestamp = \<lparr>instant = - 1, loc = 0\<rparr>\<rparr>)
      \<lparr>dollars = Fin 1, timestamp = \<lparr>instant = - 1, loc = 0\<rparr>\<rparr> \<and>
   is_float64 (Fin 1) \<and>
   \<not> Sale_eq
      (Sale_ConflateWith (Sale_ZeroValue \<lparr>dollars = NaN, timestamp = \<lparr>instant = 5, loc = 0\<rparr>\<rparr>)
         \<lparr>dollars = NaN, timestamp = \<lparr>instant = 5, loc = 0\<rparr>\<rparr>)
      \<lparr>dollars = NaN, timestamp = \<lparr>instant = 5, loc = 0\<rparr>\<rparr>"
  by (simp add: Sale_ConflateWith_def Sale_ZeroValue_def maxTime_def After_def Sale_eq_def
      feq_def round64_1 is_float64_1)

text \<open>
  C9 (neutral element for \<^verbatim>\<open>Sale\<close>), amended. For every \<^verbatim>\<open>Sale\<close> \<open>s\<close> whose dollars are a
  \<^verbatim>\<open>float64\<close> other than \<^verbatim>\<open>NaN\<close> and whose timestamp is at or after the zero \<^verbatim>\<open>Time\<close>,
  \<^verbatim>\<open>ZeroValue().ConflateWith(s) == s\<close>, and the result is \<open>s\<close> itself except that dollars of
  \<open>-0\<close> have become \<open>+0\<close>; the same holds of \<^verbatim>\<open>s.ConflateWith(ZeroValue())\<close> when the timestamp
  is after the zero \<^verbatim>\<open>Time\<close> or is the zero \<^verbatim>\<open>Time\<close> itself. When the dollars are \<^verbatim>\<open>NaN\<close>,
  neither result is \<^verbatim>\<open>== s\<close>. When the timestamp is before the zero \<^verbatim>\<open>Time\<close>, both results
  are dated at the zero \<^verbatim>\<open>Time\<close>. The receiver \<open>z\<close> of \<^verbatim>\<open>ZeroValue()\<close> is any \<^verbatim>\<open>Sale\<close>.
\<close>

theorem C9_neutral_from_zero_time_on:
  "(is_float64 (dollars s) \<and> dollars s \<noteq> NaN \<and> 0 \<le> instant (timestamp s) \<longrightarrow>
      Sale_eq (Sale_ConflateWith (Sale_ZeroValue z) s) s \<and>
      Sale_ConflateWith (Sale_ZeroValue z) s =
        (if dollars s = NegZero then s\<lparr>dollars := Fin 0\<rparr> else s)) \<and>
   (is_float64 (dollars s) \<and> dollars s \<noteq> NaN \<and>
      (0 < instant (timestamp s) \<or> timestamp s = \<lparr>instant = 0, loc = 0\<rparr>) \<longrightarrow>
      Sale_eq (Sale_ConflateWith s (Sale_ZeroValue z)) s \<and>
      Sale_ConflateWith s (Sale_ZeroValue z) =
        (if dollars s = NegZero then s\<lparr>dollars := Fin 0\<rparr> else s)) \<and>
   (dollars s = NaN \<longrightarrow>
      \<not> Sale_eq (Sale_ConflateWith (Sale_ZeroValue z) s) s \<and>
      \<not> Sale_eq (Sale_ConflateWith s (Sale_ZeroValue z)) s) \<and>
   (instant (timestamp s) < 0 \<longrightarrow>
      timestamp (Sale_ConflateWith (Sale_ZeroValue z) s) = \<lparr>instant = 0, loc = 0\<rparr> \<and>
      timestamp (Sale_ConflateWith s (Sale_ZeroValue z)) = \<lparr>instant = 0, loc = 0\<rparr>)"
proof -
  have L: "Sale_eq (Sale_ConflateWith (Sale_ZeroValue z) s) s \<and>
      Sale_ConflateWith (Sale_ZeroValue z) s =
        (if dollars s = NegZero then s\<lparr>dollars := Fin 0\<rparr> else s)"
    if "is_float64 (dollars s)" "dollars s \<noteq> NaN" "0 \<le> instant (timestamp s)"
  proof -
    have t: "maxTime \<lparr>instant = 0, loc = 0\<rparr> (timestamp s) = timestamp s"
      using that(3) by (simp add: maxTime_def After_def)
    have c: "Sale_ConflateWith (Sale_ZeroValue z) s =
        \<lparr>dollars = (if dollars s = NegZero then Fin 0 else dollars s), timestamp = timestamp s\<rparr>"
      by (simp add: Sale_ConflateWith_def Sale_ZeroValue_def t fadd_zero_left[OF that(1)])
    show ?thesis
      unfolding c using feq_zero_sum[OF that(2)] by (simp add: Sale_eq_def)
  qed
  have R: "Sale_eq (Sale_ConflateWith s (Sale_ZeroValue z)) s \<and>
      Sale_ConflateWith s (Sale_ZeroValue z) =
        (if dollars s = NegZero then s\<lparr>dollars := Fin 0\<rparr> else s)"
    if "is_float64 (dollars s)" "dollars s \<noteq> NaN"
      "0 < instant (timestamp s) \<or> timestamp s = \<lparr>instant = 0, loc = 0\<rparr>"
  proof -
    have t: "maxTime (timestamp s) \<lparr>instant = 0, loc = 0\<rparr> = timestamp s"
      using that(3) by (auto simp: maxTime_def After_def)
    have c: "Sale_ConflateWith s (Sale_ZeroValue z) =
        \<lparr>dollars = (if dollars s = NegZero then Fin 0 else dollars s), timestamp = timestamp s\<rparr>"
      by (simp add: Sale_ConflateWith_def Sale_ZeroValue_def t fadd_zero_right[OF that(1)])
    show ?thesis
      unfolding c using feq_zero_sum[OF that(2)] by (simp add: Sale_eq_def)
  qed
  have N: "\<not> Sale_eq (Sale_ConflateWith (Sale_ZeroValue z) s) s \<and>
      \<not> Sale_eq (Sale_ConflateWith s (Sale_ZeroValue z)) s" if "dollars s = NaN"
    using that by (simp add: Sale_eq_def feq_def)
  have T: "timestamp (Sale_ConflateWith (Sale_ZeroValue z) s) = \<lparr>instant = 0, loc = 0\<rparr> \<and>
      timestamp (Sale_ConflateWith s (Sale_ZeroValue z)) = \<lparr>instant = 0, loc = 0\<rparr>"
    if "instant (timestamp s) < 0"
    using that by (simp add: Sale_ConflateWith_def Sale_ZeroValue_def maxTime_def After_def)
  from L R N T show ?thesis by blast
qed

text \<open>
  C9, amended, at \<open>sale1\<close>, at a sale of \<open>-0\<close> dollars, at a sale of \<^verbatim>\<open>NaN\<close> dollars and at
  the sale dated before the zero \<^verbatim>\<open>Time\<close>.
\<close>

theorem C9_neutral_from_zero_time_on_witness:
  "is_float64 (dollars sale1) \<and> dollars sale1 \<noteq> NaN \<and> 0 < instant (timestamp sale1) \<and>
   Sale_eq (Sale_ConflateWith (Sale_ZeroValue sale1) sale1) sale1 \<and>
   Sale_ConflateWith (Sale_ZeroValue sale1) sale1 = sale1 \<and>
   Sale_ConflateWith sale1 (Sale_ZeroValue sale1) = sale1 \<and>
   Sale_ConflateWith (Sale_ZeroValue sale1) \<lparr>dollars = NegZero, timestamp = \<lparr>instant = 5, loc = 0\<rparr>\<rparr> =
     \<lparr>dollars = Fin 0, timestamp = \<lparr>instant = 5, loc = 0\<rparr>\<rparr> \<and>
   Sale_eq (Sale_ConflateWith (Sale_ZeroValue sale1) \<lparr>dollars = NegZero, timestamp = \<lparr>instant = 5, loc = 0\<rparr>\<rparr>)
     \<lparr>dollars = NegZero, timestamp = \<lparr>instant = 5, loc = 0\<rparr>\<rparr> \<and>
   \<not> Sale_eq (Sale_ConflateWith \<lparr>dollars = NaN, timestamp = \<lparr>instant = 5, loc = 0\<rparr>\<rparr>
                  (Sale_ZeroValue sale1))
     \<lparr>dollars = NaN, timestamp = \<lparr>instant = 5, loc = 0\<rparr>\<rparr> \<and>
   instant (timestamp \<lparr>dollars = Fin 1, timestamp = \<lparr>instant = - 1, loc = 0\<rparr>\<rparr>) < 0 \<and>
   timestamp (Sale_ConflateWith (Sale_ZeroValue sale1)
       \<lparr>dollars = Fin 1, timestamp = \<lparr>instant = - 1, loc = 0\<rparr>\<rparr>) = \<lparr>instant = 0, loc = 0\<rparr>"
proof -
  let ?Z = "\<lparr>dollars = NegZero, timestamp = \<lparr>instant = 5, loc = 0\<rparr>\<rparr>"
  let ?N = "\<lparr>dollars = NaN, timestamp = \<lparr>instant = 5, loc = 0\<rparr>\<rparr>"
  let ?B = "\<lparr>dollars = Fin 1, timestamp = \<lparr>instant = - 1, loc = 0\<rparr>\<rparr>"
  have a: "is_float64 (dollars sale1) \<and> dollars sale1 \<noteq> NaN \<and> dollars sale1 \<noteq> NegZero \<and>
      0 \<le> instant (timestamp sale1) \<and> 0 < instant (timestamp sale1)"
    by (simp add: sale1_def is_float64_1)
  have z: "is_float64 (dollars ?Z) \<and> dollars ?Z \<noteq> NaN \<and> dollars ?Z = NegZero \<and>
      0 \<le> instant (timestamp ?Z) \<and> ?Z\<lparr>dollars := Fin 0\<rparr> =
        \<lparr>dollars = Fin 0, timestamp = \<lparr>instant = 5, loc = 0\<rparr>\<rparr>"
    by (simp add: is_float64_def)
  have n: "dollars ?N = NaN" by simp
  have b: "instant (timestamp ?B) < 0" by simp
  from C9_neutral_from_zero_time_on[of sale1 sale1] a
  have 1: "Sale_eq (Sale_ConflateWith (Sale_ZeroValue sale1) sale1) sale1"
    "Sale_ConflateWith (Sale_ZeroValue sale1) sale1 = sale1"
    "Sale_ConflateWith sale1 (Sale_ZeroValue sale1) = sale1"
    by (auto simp: Sale_eq_def feq_def)
  from C9_neutral_from_zero_time_on[of ?Z sale1] z
  have 2: "Sale_ConflateWith (Sale_ZeroValue sale1) ?Z =
       \<lparr>dollars = Fin 0, timestamp = \<lparr>instant = 5, loc = 0\<rparr>\<rparr>"
    "Sale_eq (Sale_ConflateWith (Sale_ZeroValue sale1) ?Z) ?Z"
    by (auto simp: Sale_eq_def feq_def)
  from C9_neutral_from_zero_time_on[of ?N sale1] n
  have 3: "\<not> Sale_eq (Sale_ConflateWith ?N (Sale_ZeroValue sale1)) ?N"
    by blast
  from C9_neutral_from_zero_time_on[of ?B sale1] b
  have 4: "timestamp (Sale_ConflateWith (Sale_ZeroValue sale1) ?B) = \<lparr>instant = 0, loc = 0\<rparr>"
    by blast
  from a 1 2 3 4 b show ?thesis by simp
qed

subsection \<open>\<^verbatim>\<open>ConflateV2\<close>\<close>

text \<open>
  C10 (\<^verbatim>\<open>ConflateV2\<close> keeps only the latest value). In every run of \<^verbatim>\<open>ConflateV2\<close>, the
  values handed over are as many as the iterations that find the consumer ready, and each
  such iteration hands over exactly the value submitted most recently at that moment: if
  the run is \<open>tr1\<close>, then an iteration \<open>Iter c True\<close>, then \<open>tr2\<close>, a value has been submitted
  by then, \<open>tr1\<close> alone is a run, and the hand-overs of the whole run begin with those of
  \<open>tr1\<close> followed by the last value submitted in \<open>tr1 @ [Iter c True]\<close>. So the submitted
  values are cut, in order, into non-empty groups that each end at a hand-over, and a rest;
  the value handed over for a group is its last value, and the other values of the group
  appear in no hand-over. \<^verbatim>\<open>lastMsg\<close> is the value submitted last.
\<close>

theorem C10_V2_latest:
  assumes "run_V2 d tr (ConflateV2 zeroT t0) = Some (s, ds)"
  shows "length ds = length (filter is_handover tr) \<and>
         (\<forall>tr1 c tr2. tr = tr1 @ Iter c True # tr2 \<longrightarrow>
            submitted (tr1 @ [Iter c True]) \<noteq> [] \<and>
            (\<exists>s1 ds1. run_V2 d tr1 (ConflateV2 zeroT t0) = Some (s1, ds1) \<and>
                take (Suc (length ds1)) ds = ds1 @ [last (submitted (tr1 @ [Iter c True]))])) \<and>
         submitted tr = concat (fst (grouping tr [])) @ snd (grouping tr []) \<and>
         [] \<notin> set (fst (grouping tr [])) \<and>
         ds = map last (fst (grouping tr [])) \<and>
         lastMsg s = (if submitted tr = [] then zeroT else last (submitted tr))"
proof -
  note g = run_V2_start[OF assms]
  have len: "length ds = length (filter is_handover tr)"
    using g by (simp add: length_grouping)
  have each: "submitted (tr1 @ [Iter c True]) \<noteq> [] \<and>
            (\<exists>s1 ds1. run_V2 d tr1 (ConflateV2 zeroT t0) = Some (s1, ds1) \<and>
                take (Suc (length ds1)) ds = ds1 @ [last (submitted (tr1 @ [Iter c True]))])"
    if "tr = tr1 @ Iter c True # tr2" for tr1 c tr2
  proof -
    have "tr = (tr1 @ [Iter c True]) @ tr2" using that by simp
    with assms obtain s2 ds2 ds3 where
      r2: "run_V2 d (tr1 @ [Iter c True]) (ConflateV2 zeroT t0) = Some (s2, ds2)" and
      ds: "ds = ds2 @ ds3"
      by (auto simp: run_V2_append simp del: append_assoc split: option.splits prod.splits)
    from V2_handover[OF r2] obtain s1 ds1 where
      ne: "submitted (tr1 @ [Iter c True]) \<noteq> []" and
      r1: "run_V2 d tr1 (ConflateV2 zeroT t0) = Some (s1, ds1)" and
      d2: "ds2 = ds1 @ [last (submitted (tr1 @ [Iter c True]))]"
      by blast
    have "take (Suc (length ds1)) ds = ds1 @ [last (submitted (tr1 @ [Iter c True]))]"
      using ds d2 by simp
    with ne r1 show ?thesis by blast
  qed
  from len each g show ?thesis by blast
qed

text \<open>
  C10 on a run: \<open>sale1\<close> finds the consumer not ready, \<open>sale2\<close> finds it ready; the one
  hand-over, at the second iteration, is \<open>sale2\<close>, the last value submitted by then.
\<close>

theorem C10_V2_latest_witness:
  "run_V2 1000000 [Iter (RecvIn sale1) False, Iter (RecvIn sale2) True]
      (ConflateV2 zero_Sale 0) =
     Some (\<lparr>retryTimer = Some 0, retryCh = None,
            timers = [\<lparr>deadline = 1000000, stopped = True, received = False\<rparr>],
            now = 0, lastMsg = sale2\<rparr>, [sale2]) \<and>
   [Iter (RecvIn sale1) False, Iter (RecvIn sale2) True] =
     [Iter (RecvIn sale1) False] @ Iter (RecvIn sale2) True # [] \<and>
   last (submitted ([Iter (RecvIn sale1) False] @ [Iter (RecvIn sale2) True])) = sale2 \<and>
   (\<exists>s1 ds1. run_V2 1000000 [Iter (RecvIn sale1) False] (ConflateV2 zero_Sale 0) = Some (s1, ds1) \<and>
       take (Suc (length ds1)) [sale2] =
         ds1 @ [last (submitted ([Iter (RecvIn sale1) False] @ [Iter (RecvIn sale2) True]))]) \<and>
   length [sale2] = length (filter is_handover [Iter (RecvIn sale1) False, Iter (RecvIn sale2) True])"
proof -
  let ?tr = "[Iter (RecvIn sale1) False, Iter (RecvIn sale2) True]"
  have h: "run_V2 1000000 ?tr (ConflateV2 zero_Sale 0) =
     Some (\<lparr>retryTimer = Some 0, retryCh = None,
            timers = [\<lparr>deadline = 1000000, stopped = True, received = False\<rparr>],
            now = 0, lastMsg = sale2\<rparr>, [sale2])"
    by (simp add: step_V2_def await_V2_def attempt_V2_def NewTimer_def Stop_def ConflateV2_def)
  have e: "?tr = [Iter (RecvIn sale1) False] @ Iter (RecvIn sale2) True # []"
    by simp
  have l: "last (submitted ([Iter (RecvIn sale1) False] @ [Iter (RecvIn sale2) True])) = sale2"
    by simp
  from C10_V2_latest[OF h] have
    a: "length [sale2] = length (filter is_handover ?tr)" and
    b: "\<forall>tr1 c tr2. ?tr = tr1 @ Iter c True # tr2 \<longrightarrow>
            submitted (tr1 @ [Iter c True]) \<noteq> [] \<and>
            (\<exists>s1 ds1. run_V2 1000000 tr1 (ConflateV2 zero_Sale 0) = Some (s1, ds1) \<and>
                take (Suc (length ds1)) [sale2] = ds1 @ [last (submitted (tr1 @ [Iter c True]))])"
    by blast+
  from b e have
    "\<exists>s1 ds1. run_V2 1000000 [Iter (RecvIn sale1) False] (ConflateV2 zero_Sale 0) = Some (s1, ds1) \<and>
       take (Suc (length ds1)) [sale2] =
         ds1 @ [last (submitted ([Iter (RecvIn sale1) False] @ [Iter (RecvIn sale2) True]))]"
    by blast
  with h e l a show ?thesis by blast
qed

end
